theory Spec2Isabelle
  imports Complex_Main "HOL-Library.Multiset"
begin

section \<open>Numbers\<close>

text \<open>
  A \<open>number\<close> of the TypeScript source is an IEEE 754 double.  The model keeps the value
  of a finite double as a real number and rounds the exact result of every arithmetic
  operation to the nearest double, ties to the even significand (\<open>fl\<close>): 53 significant
  bits, and below \<open>pow2 (- 1022)\<close> the fixed spacing \<open>pow2 (- 1074)\<close> of the subnormal numbers.
  The two zeros are not told apart; \<open>===\<close>, \<open><=\<close> and the operations used here give the
  same results for both.
\<close>

definition pow2 :: "int \<Rightarrow> real" where
  "pow2 e = 2 powr (of_int e)"

definition round_even :: "real \<Rightarrow> int" where
  \<comment> \<open>to the nearest integer, a tie to the even one\<close>
  "round_even t =
     (let f = \<lfloor>t\<rfloor>; d = t - of_int f
      in if d < 1 / 2 then f else if 1 / 2 < d then f + 1 else if even f then f else f + 1)"

definition expo :: "real \<Rightarrow> int" where
  \<comment> \<open>the exponent of the last bit of the double nearest to \<open>x\<close>\<close>
  "expo x = max (\<lfloor>log 2 \<bar>x\<bar>\<rfloor> - 52) (- 1074)"

definition fl :: "real \<Rightarrow> real" where
  "fl x = (if x = 0 then 0 else of_int (round_even (x / pow2 (expo x))) * pow2 (expo x))"

text \<open>
  The values that a numeric field or variable of the source can hold: a finite double,
  the two infinities, \<open>NaN\<close>, and \<open>undefined\<close> for a property that was never assigned.
  Arithmetic converts \<open>undefined\<close> to \<open>NaN\<close>.  A rounded result beyond the largest
  double is an infinity.
\<close>

datatype jsnum = Fin real | PInf | NInf | NaN | Undef

definition max_double :: real where
  "max_double = (2 ^ 53 - 1) * 2 ^ 971"

definition fl_round :: "real \<Rightarrow> jsnum" where
  "fl_round x =
     (if max_double < fl x then PInf else if fl x < - max_double then NInf else Fin (fl x))"

definition lit :: "real \<Rightarrow> jsnum" where
  \<comment> \<open>a decimal literal of the source, such as \<open>1.3\<close>: the double nearest to it\<close>
  "lit x = fl_round x"

fun jadd :: "jsnum \<Rightarrow> jsnum \<Rightarrow> jsnum" where
  \<comment> \<open>\<open>x + y\<close> on numbers\<close>
  "jadd (Fin a) (Fin b) = fl_round (a + b)"
| "jadd (Fin a) PInf = PInf"
| "jadd (Fin a) NInf = NInf"
| "jadd PInf (Fin b) = PInf"
| "jadd PInf PInf = PInf"
| "jadd NInf (Fin b) = NInf"
| "jadd NInf NInf = NInf"
| "jadd _ _ = NaN"

fun jneg :: "jsnum \<Rightarrow> jsnum" where
  "jneg (Fin a) = Fin (- a)"
| "jneg PInf = NInf"
| "jneg NInf = PInf"
| "jneg _ = NaN"

definition jsub :: "jsnum \<Rightarrow> jsnum \<Rightarrow> jsnum" where
  \<comment> \<open>\<open>x - y\<close>\<close>
  "jsub x y = jadd x (jneg y)"

fun jmul :: "jsnum \<Rightarrow> jsnum \<Rightarrow> jsnum" where
  \<comment> \<open>\<open>x * y\<close>\<close>
  "jmul (Fin a) (Fin b) = fl_round (a * b)"
| "jmul (Fin a) PInf = (if a = 0 then NaN else if 0 < a then PInf else NInf)"
| "jmul (Fin a) NInf = (if a = 0 then NaN else if 0 < a then NInf else PInf)"
| "jmul PInf (Fin b) = (if b = 0 then NaN else if 0 < b then PInf else NInf)"
| "jmul NInf (Fin b) = (if b = 0 then NaN else if 0 < b then NInf else PInf)"
| "jmul PInf PInf = PInf"
| "jmul PInf NInf = NInf"
| "jmul NInf PInf = NInf"
| "jmul NInf NInf = PInf"
| "jmul _ _ = NaN"

fun jdiv :: "jsnum \<Rightarrow> jsnum \<Rightarrow> jsnum" where
  \<comment> \<open>\<open>x / y\<close>\<close>
  "jdiv (Fin a) (Fin b) =
     (if b = 0 then (if a = 0 then NaN else if 0 < a then PInf else NInf)
      else fl_round (a / b))"
| "jdiv (Fin a) PInf = Fin 0"
| "jdiv (Fin a) NInf = Fin 0"
| "jdiv PInf (Fin b) = (if 0 \<le> b then PInf else NInf)"
| "jdiv NInf (Fin b) = (if 0 \<le> b then NInf else PInf)"
| "jdiv _ _ = NaN"

fun jle :: "jsnum \<Rightarrow> jsnum \<Rightarrow> bool" where
  \<comment> \<open>\<open>x <= y\<close>: false as soon as one side is \<open>NaN\<close> or \<open>undefined\<close>\<close>
  "jle (Fin a) (Fin b) = (a \<le> b)"
| "jle (Fin a) PInf = True"
| "jle NInf (Fin b) = True"
| "jle NInf NInf = True"
| "jle NInf PInf = True"
| "jle PInf PInf = True"
| "jle _ _ = False"

fun jeq :: "jsnum \<Rightarrow> jsnum \<Rightarrow> bool" where
  \<comment> \<open>\<open>x === y\<close>\<close>
  "jeq (Fin a) (Fin b) = (a = b)"
| "jeq PInf PInf = True"
| "jeq NInf NInf = True"
| "jeq Undef Undef = True"
| "jeq _ _ = False"

fun is_nan :: "jsnum \<Rightarrow> bool" where
  \<comment> \<open>the conversion to a number gives \<open>NaN\<close>\<close>
  "is_nan NaN = True"
| "is_nan Undef = True"
| "is_nan _ = False"

definition jmax :: "jsnum \<Rightarrow> jsnum \<Rightarrow> jsnum" where
  \<comment> \<open>\<open>Math.max(x, y)\<close>\<close>
  "jmax x y = (if is_nan x \<or> is_nan y then NaN else if jle x y then y else x)"

fun jceil :: "jsnum \<Rightarrow> jsnum" where
  \<comment> \<open>\<open>Math.ceil\<close>; the ceiling of a double is a double\<close>
  "jceil (Fin x) = Fin (of_int \<lceil>x\<rceil>)"
| "jceil PInf = PInf"
| "jceil NInf = NInf"
| "jceil _ = NaN"

fun jround :: "jsnum \<Rightarrow> jsnum" where
  \<comment> \<open>\<open>Math.round\<close>: the nearest integer, a half towards plus infinity\<close>
  "jround (Fin x) = Fin (of_int \<lfloor>x + 1 / 2\<rfloor>)"
| "jround PInf = PInf"
| "jround NInf = NInf"
| "jround _ = NaN"

fun toFixed1 :: "jsnum \<Rightarrow> jsnum" where
  \<comment> \<open>\<open>Number(x.toFixed(1))\<close>: \<open>toFixed\<close> takes the integer \<open>n\<close> with \<open>n / 10\<close> nearest to the
      exact value of \<open>x\<close>, of two the one larger in magnitude, and \<open>Number\<close> reads the
      digits back; from \<open>10 ^ 21\<close> on \<open>toFixed\<close> prints \<open>x\<close> itself\<close>
  "toFixed1 (Fin x) =
     (if 10 ^ 21 \<le> \<bar>x\<bar> then Fin x
      else fl_round
             (of_int (if x < 0 then - \<lfloor>- x * 10 + 1 / 2\<rfloor> else \<lfloor>x * 10 + 1 / 2\<rfloor>) / 10))"
| "toFixed1 PInf = PInf"
| "toFixed1 NInf = NInf"
| "toFixed1 _ = NaN"

definition js_round :: "real \<Rightarrow> int" where
  \<comment> \<open>\<open>Math.round\<close> on a finite value\<close>
  "js_round x = \<lfloor>x + 1 / 2\<rfloor>"

section \<open>Property lookup\<close>

text \<open>
  \<open>obj[key]\<close> on a plain object finds the own property of that name and otherwise the
  member of \<open>Object.prototype\<close> of that name, a function or, for \<open>__proto__\<close>, the
  prototype itself: each of them is truthy and has none of the properties that the
  source reads from the entries it stores.
\<close>

definition proto_members :: "string list" where
  "proto_members = [''constructor'', ''__defineGetter__'', ''__defineSetter__'', ''hasOwnProperty'',
     ''__lookupGetter__'', ''__lookupSetter__'', ''isPrototypeOf'', ''propertyIsEnumerable'',
     ''toString'', ''valueOf'', ''__proto__'', ''toLocaleString'']"

datatype 'v lookup = own 'v | inherited | absent

definition js_get :: "(string \<rightharpoonup> 'v) \<Rightarrow> string \<Rightarrow> 'v lookup" where
  "js_get obj key =
     (case obj key of
        Some v \<Rightarrow> own v
      | None \<Rightarrow> if key \<in> set proto_members then inherited else absent)"

section \<open>Spaced repetition: \<open>updateSRS\<close> (App.tsx)\<close>

datatype SRSRating = again | hard | good | easy

record SRSState =
  cardId :: "string option"
  nextReview :: jsnum
  interval :: jsnum
  ease :: jsnum
  repetitions :: jsnum

text \<open>A stored object may lack \<open>cardId\<close>: \<open>None\<close>.\<close>

definition default_state :: "string \<Rightarrow> SRSState" where
  \<comment> \<open>the object literal after \<open>prev[cardId] ||\<close>\<close>
  "default_state cid =
     \<lparr>cardId = Some cid, nextReview = Fin 0, interval = Fin 0, ease = lit (23 / 10),
      repetitions = Fin 0\<rparr>"

definition inherited_member :: SRSState where
  \<comment> \<open>what the updater reads from an inherited member of \<open>Object.prototype\<close>: the
      destructured fields are \<open>undefined\<close> and the spread copies no property\<close>
  "inherited_member =
     \<lparr>cardId = None, nextReview = Undef, interval = Undef, ease = Undef, repetitions = Undef\<rparr>"

definition multiplier :: "SRSRating \<Rightarrow> jsnum \<Rightarrow> jsnum" where
  \<comment> \<open>\<open>rating === 'hard' ? 1.2 : rating === 'good' ? ease : ease * 1.5\<close>\<close>
  "multiplier rating e =
     (if rating = hard then lit (12 / 10) else if rating = good then e else jmul e (lit (15 / 10)))"

definition rate_card :: "real \<Rightarrow> SRSState \<Rightarrow> SRSRating \<Rightarrow> SRSState" where
  \<comment> \<open>the body of the state updater, from \<open>current\<close> to the stored object;
      \<open>now\<close> is the value read from \<open>Date.now()\<close>\<close>
  "rate_card now current rating =
     (let interval0 = interval current; ease0 = ease current; repetitions0 = repetitions current;
          (interval1, ease1, repetitions1) =
            (if rating = again then (Fin 0, jmax (lit (13 / 10)) (jsub ease0 (lit (2 / 10))), Fin 0)
             else
               let interval' =
                     (if jeq repetitions0 (Fin 0) then Fin 1
                      else if jeq repetitions0 (Fin 1) then Fin 6
                      else jceil (jmul interval0 (multiplier rating ease0)));
                   repetitions' = jadd repetitions0 (Fin 1);
                   ease' = (if rating = hard then jmax (lit (13 / 10)) (jsub ease0 (lit (15 / 100)))
                            else ease0);
                   ease'' = (if rating = easy then jadd ease' (lit (15 / 100)) else ease')
               in (interval', ease'', repetitions'));
          nextReview1 =
            jadd (Fin now) (jmul (jmul (jmul (jmul interval1 (Fin 24)) (Fin 60)) (Fin 60)) (Fin 1000))
      in current\<lparr>nextReview := nextReview1, interval := interval1, ease := ease1,
                   repetitions := repetitions1\<rparr>)"

definition updateSRS ::
  "real \<Rightarrow> string \<Rightarrow> SRSRating \<Rightarrow> (string \<rightharpoonup> SRSState) \<Rightarrow> (string \<rightharpoonup> SRSState)" where
  "updateSRS now cid rating prev =
     (let current = (case js_get prev cid of
                       own s \<Rightarrow> s
                     | inherited \<Rightarrow> inherited_member
                     | absent \<Rightarrow> default_state cid)
      in prev(cid \<mapsto> rate_card now current rating))"

fun rate_all :: "SRSState \<Rightarrow> (real \<times> SRSRating) list \<Rightarrow> SRSState" where
  \<comment> \<open>successive reviews of one card, each with the clock value of its call\<close>
  "rate_all c [] = c"
| "rate_all c ((now, rating) # rest) = rate_all (rate_card now c rating) rest"

definition good_streak :: "SRSState \<Rightarrow> real list \<Rightarrow> SRSState" where
  \<comment> \<open>the card after one \<open>good\<close> rating at each of the given clock values\<close>
  "good_streak c nows = rate_all c (map (\<lambda>t. (t, good)) nows)"

section \<open>Topic canonicalisation: \<open>dissectClinicalTopic\<close> (AnalyticsView.tsx)\<close>

text \<open>
  Strings are lists of characters.  \<open>toLowerCase\<close> is modelled on the ASCII letters,
  which is all that the two fixed term lists contain; \<open>includes\<close> is the substring test.
\<close>

definition lower_char :: "char \<Rightarrow> char" where
  "lower_char c =
     (case map_of (zip ''ABCDEFGHIJKLMNOPQRSTUVWXYZ'' ''abcdefghijklmnopqrstuvwxyz'') c of
        Some l \<Rightarrow> l
      | None \<Rightarrow> c)"

definition toLowerCase :: "string \<Rightarrow> string" where
  "toLowerCase s = map lower_char s"

fun starts_with :: "string \<Rightarrow> string \<Rightarrow> bool" where
  "starts_with s [] = True"
| "starts_with [] (p # ps) = False"
| "starts_with (c # cs) (p # ps) = (c = p \<and> starts_with cs ps)"

fun str_includes :: "string \<Rightarrow> string \<Rightarrow> bool" where
  \<comment> \<open>\<open>s.includes(sub)\<close>\<close>
  "str_includes [] sub = starts_with [] sub"
| "str_includes (c # cs) sub = (starts_with (c # cs) sub \<or> str_includes cs sub)"

definition ignoreList :: "string list" where
  "ignoreList = [''step 1'', ''step 2'', ''step 3'', ''board'', ''style'', ''nbme'', ''free 120'',
     ''high yield'', ''review'', ''test'', ''usmle'', ''plab'', ''comlex'']"

definition broadSystems :: "string list" where
  "broadSystems = [''surgery'', ''medicine'', ''pediatrics'', ''obgyn'', ''psychiatry'',
     ''cardiology'', ''gi'', ''renal'', ''respiratory'', ''neurology'', ''gastroenterology'',
     ''pulmonology'', ''endocrinology'', ''hematology'', ''oncology'', ''infectious disease'',
     ''rheumatology'', ''dermatology'', ''ophthalmology'', ''ent'', ''orthopedics'', ''urology'',
     ''gynecology'', ''obstetrics'', ''family medicine'', ''emergency medicine'',
     ''internal medicine'']"

definition is_ignored :: "string \<Rightarrow> bool" where
  \<comment> \<open>\<open>ignoreList.some(ignore => lowerTag.includes(ignore))\<close>\<close>
  "is_ignored tag = list_ex (str_includes (toLowerCase tag)) ignoreList"

definition is_broad :: "string \<Rightarrow> bool" where
  \<comment> \<open>\<open>broadSystems.some(broad => lowerTag.includes(broad))\<close>\<close>
  "is_broad tag = list_ex (str_includes (toLowerCase tag)) broadSystems"

fun dissect_loop :: "string option \<Rightarrow> string list \<Rightarrow> string option" where
  \<comment> \<open>the \<open>for (const tag of tags)\<close> loop with the variable \<open>fallbackBroadSystem\<close>;
      \<open>!fallbackBroadSystem\<close> holds of \<open>null\<close> and of the empty string\<close>
  "dissect_loop fallbackBroadSystem [] = fallbackBroadSystem"
| "dissect_loop fallbackBroadSystem (tag # tags) =
     (if is_ignored tag then dissect_loop fallbackBroadSystem tags
      else if is_broad tag then
        dissect_loop
          (if fallbackBroadSystem = None \<or> fallbackBroadSystem = Some [] then Some tag
           else fallbackBroadSystem) tags
      else Some tag)"

definition dissectClinicalTopic :: "string list \<Rightarrow> string option" where
  \<comment> \<open>\<open>None\<close> is \<open>null\<close>\<close>
  "dissectClinicalTopic tags = (if tags = [] then None else dissect_loop None tags)"

section \<open>Sorting with a comparator\<close>

text \<open>
  \<open>Array.prototype.sort\<close> with a comparator function is a library routine.  It is stable,
  and for a consistent comparator it leaves \<open>a\<close> before \<open>b\<close> only if the comparator
  does not return a positive number for them.  It is modelled by the stable insertion sort.
\<close>

fun insert_cmp :: "('a \<Rightarrow> 'a \<Rightarrow> real) \<Rightarrow> 'a \<Rightarrow> 'a list \<Rightarrow> 'a list" where
  "insert_cmp cmp x [] = [x]"
| "insert_cmp cmp x (y # ys) = (if cmp x y \<le> 0 then x # y # ys else y # insert_cmp cmp x ys)"

definition js_sort :: "('a \<Rightarrow> 'a \<Rightarrow> real) \<Rightarrow> 'a list \<Rightarrow> 'a list" where
  "js_sort cmp xs = foldr (insert_cmp cmp) xs []"

definition js_or :: "real \<Rightarrow> real \<Rightarrow> real" where
  \<comment> \<open>\<open>x || y\<close> on numbers: \<open>0\<close> is the falsy one\<close>
  "js_or x y = (if x \<noteq> 0 then x else y)"

section \<open>Topic statistics: \<open>tagStats\<close> and \<open>subtopicData\<close> (AnalyticsView.tsx)\<close>

record Question =
  id_q :: string
  tags :: "string list option"
  clinicalConcepts :: "string list option"

record SessionDetail =
  questionId :: string
  isCorrect :: bool

record HistoricalSession =
  timestamp :: jsnum
  totalQuestions :: jsnum
  correctAnswers :: jsnum
  timeTakenMs :: jsnum
  details :: "SessionDetail list option"

record Counts =
  correct :: nat
  total :: nat

record TagStat = Counts +
  history :: "bool list"

record Subtopic = Counts +
  name :: string
  accuracy :: int
  recentAccuracy :: int
  urgency :: real

text \<open>
  The counters of a bucket start at \<open>0\<close> and grow by \<open>1\<close>: they are natural numbers,
  which doubles hold exactly up to \<open>2 ^ 53\<close>.
\<close>

definition set_add :: "'a list \<Rightarrow> 'a \<Rightarrow> 'a list" where
  \<comment> \<open>\<open>Set.add\<close>, the set kept as the list of its elements in insertion order\<close>
  "set_add ks k = (if k \<in> set ks then ks else ks @ [k])"

definition keysToTrack :: "Question \<Rightarrow> string list" where
  \<comment> \<open>\<open>if (cleanTopic)\<close> fails for \<open>null\<close> and for the empty string\<close>
  "keysToTrack q =
     (let cleanTopic = dissectClinicalTopic (case tags q of Some ts \<Rightarrow> ts | None \<Rightarrow> []);
          concepts = (case clinicalConcepts q of Some cs \<Rightarrow> cs | None \<Rightarrow> [])
      in case cleanTopic of
           Some topic \<Rightarrow>
             if topic \<noteq> [] then
               (if length concepts > 0
                then foldl set_add [] (map (\<lambda>concept. topic @ '': '' @ concept) concepts)
                else set_add [] topic)
             else if length concepts > 0 then foldl set_add [] concepts else []
         | None \<Rightarrow> if length concepts > 0 then foldl set_add [] concepts else [])"

fun fold_opt :: "('s \<Rightarrow> 'a \<Rightarrow> 's option) \<Rightarrow> 's \<Rightarrow> 'a list \<Rightarrow> 's option" where
  \<comment> \<open>\<open>forEach\<close> with a body that may throw: \<open>None\<close> once it has thrown\<close>
  "fold_opt f s [] = Some s"
| "fold_opt f s (x # xs) = (case f s x of None \<Rightarrow> None | Some s' \<Rightarrow> fold_opt f s' xs)"

definition track_key ::
  "bool \<Rightarrow> (string \<rightharpoonup> TagStat) \<Rightarrow> string \<Rightarrow> (string \<rightharpoonup> TagStat) option" where
  \<comment> \<open>the body of \<open>keysToTrack.forEach\<close>.  For a key that names a member of
      \<open>Object.prototype\<close> the test \<open>!tagStats[key]\<close> fails, no bucket is created, and
      \<open>tagStats[key].history.push\<close> throws a \<open>TypeError\<close>: \<open>None\<close>\<close>
  "track_key ok stats key =
     (let bump = (\<lambda>s0.
            let s1 = s0\<lparr>total := total s0 + 1\<rparr>;
                s2 = (if ok then s1\<lparr>correct := correct s1 + 1\<rparr> else s1)
            in s2\<lparr>history := history s2 @ [ok]\<rparr>)
      in case js_get stats key of
           own s \<Rightarrow> Some (stats(key \<mapsto> bump s))
         | absent \<Rightarrow> Some (stats(key \<mapsto> bump \<lparr>correct = 0, total = 0, history = []\<rparr>))
         | inherited \<Rightarrow> None)"

definition track_detail ::
  "(string \<rightharpoonup> Question) \<Rightarrow> (string \<rightharpoonup> TagStat) \<Rightarrow> SessionDetail
     \<Rightarrow> (string \<rightharpoonup> TagStat) option" where
  \<comment> \<open>an inherited member passes \<open>if (q)\<close>, but has neither \<open>tags\<close> nor
      \<open>clinicalConcepts\<close>, so that no key is tracked for it\<close>
  "track_detail questionLibrary stats detail =
     (case js_get questionLibrary (questionId detail) of
        own q \<Rightarrow> fold_opt (track_key (isCorrect detail)) stats (keysToTrack q)
      | inherited \<Rightarrow> Some stats
      | absent \<Rightarrow> Some stats)"

definition tagStats ::
  "(string \<rightharpoonup> Question) \<Rightarrow> HistoricalSession list \<Rightarrow> (string \<rightharpoonup> TagStat) option" where
  \<comment> \<open>\<open>history.forEach\<close>; a session without \<open>details\<close> is passed over\<close>
  "tagStats questionLibrary sessions =
     fold_opt (\<lambda>stats session.
                 case details session of
                   Some ds \<Rightarrow> fold_opt (track_detail questionLibrary) stats ds
                 | None \<Rightarrow> Some stats)
       Map.empty sessions"

definition percent :: "nat \<Rightarrow> nat \<Rightarrow> int" where
  \<comment> \<open>\<open>Math.round((c / t) * 100)\<close> for counters \<open>c\<close> and \<open>t\<close>, \<open>t\<close> positive: the quotient
      and the product are each rounded to a double\<close>
  "percent c t = js_round (fl (fl (real c / real t) * 100))"

definition subtopic_entry :: "string \<Rightarrow> TagStat \<Rightarrow> Subtopic" where
  \<comment> \<open>the function mapped over \<open>Object.entries(tagStats)\<close>; every entry of \<open>tagStats\<close>
      has a positive \<open>total\<close>, so the division is defined\<close>
  "subtopic_entry nm data =
     (let accuracy' = percent (correct data) (total data);
          recent5 = take 5 (history data);
          recentCorrect = length (filter (\<lambda>b. b) recent5);
          recentAccuracy' =
            (if length recent5 > 0 then percent recentCorrect (length recent5) else accuracy');
          urgency' = fl (real (total data) * fl (1 - fl (real_of_int accuracy' / 100)))
      in \<lparr>correct = correct data, total = total data, name = nm, accuracy = accuracy',
          recentAccuracy = recentAccuracy', urgency = urgency'\<rparr>)"

definition subtopicData :: "(string \<times> TagStat) list \<Rightarrow> Subtopic list" where
  "subtopicData entries = map (\<lambda>(nm, data). subtopic_entry nm data) entries"

datatype sortMethod = weakness | strength | urgency_first | alpha

definition weakness_cmp :: "Subtopic \<Rightarrow> Subtopic \<Rightarrow> real" where
  "weakness_cmp a b =
     (let aValid = (total a \<ge> 3); bValid = (total b \<ge> 3)
      in if aValid \<and> \<not> bValid then - 1
         else if \<not> aValid \<and> bValid then 1
         else js_or (real_of_int (accuracy a) - real_of_int (accuracy b))
                    (real (total b) - real (total a)))"

definition strength_cmp :: "Subtopic \<Rightarrow> Subtopic \<Rightarrow> real" where
  "strength_cmp a b =
     (let aValid = (total a \<ge> 3); bValid = (total b \<ge> 3)
      in if aValid \<and> \<not> bValid then - 1
         else if \<not> aValid \<and> bValid then 1
         else js_or (real_of_int (accuracy b) - real_of_int (accuracy a))
                    (real (total b) - real (total a)))"

definition urgency_cmp :: "Subtopic \<Rightarrow> Subtopic \<Rightarrow> real" where
  \<comment> \<open>the difference of two percentages or counters is a whole number and exact, the
      difference of two urgencies is rounded\<close>
  "urgency_cmp a b =
     js_or (fl (urgency b - urgency a)) (real_of_int (accuracy a) - real_of_int (accuracy b))"

definition sort_subtopicData ::
  "(string \<Rightarrow> string \<Rightarrow> real) \<Rightarrow> sortMethod \<Rightarrow> Subtopic list \<Rightarrow> Subtopic list" where
  \<comment> \<open>the \<open>if (sortMethod === ...)\<close> chain; \<open>localeCompare\<close> depends on the locale of the
      browser and is a parameter\<close>
  "sort_subtopicData localeCompare sortMethod data =
     (if sortMethod = weakness then js_sort weakness_cmp data
      else if sortMethod = strength then js_sort strength_cmp data
      else if sortMethod = urgency_first then js_sort urgency_cmp data
      else js_sort (\<lambda>a b. localeCompare (name a) (name b)) data)"

text \<open>
  The recency buffer as the specification words it: each outcome is pushed to the front
  of a buffer that keeps five entries, and the recent accuracy is the rounded percentage
  of the correct outcomes in the buffer.
\<close>

definition push_front_capped :: "bool list \<Rightarrow> bool \<Rightarrow> bool list" where
  "push_front_capped buffer ok = take 5 (ok # buffer)"

definition percent_correct :: "bool list \<Rightarrow> int" where
  "percent_correct buffer = percent (length (filter (\<lambda>b. b) buffer)) (length buffer)"

text \<open>A library of six questions on one topic, and one session that answers them.\<close>

definition example_question :: "string \<Rightarrow> Question" where
  "example_question i = \<lparr>id_q = i, tags = Some [''Step 2'', ''Aortic Dissection''], clinicalConcepts = None\<rparr>"

definition example_library :: "string \<rightharpoonup> Question" where
  "example_library =
     map_of (map (\<lambda>i. (i, example_question i)) [''q1'', ''q2'', ''q3'', ''q4'', ''q5'', ''q6''])"

definition example_session :: HistoricalSession where
  "example_session =
     \<lparr>timestamp = Fin 1000, totalQuestions = Fin 6, correctAnswers = Fin 5, timeTakenMs = Fin 360000,
      details = Some
     [\<lparr>questionId = ''q1'', isCorrect = True\<rparr>, \<lparr>questionId = ''q2'', isCorrect = True\<rparr>,
      \<lparr>questionId = ''q3'', isCorrect = True\<rparr>, \<lparr>questionId = ''q4'', isCorrect = True\<rparr>,
      \<lparr>questionId = ''q5'', isCorrect = True\<rparr>, \<lparr>questionId = ''q6'', isCorrect = False\<rparr>]\<rparr>"

section \<open>Due cards: \<open>dueSRSItems\<close> (App.tsx)\<close>

record MasteryCard =
  id_m :: string
  content :: string

datatype SRSItem =
    vignette Question
  | vignette_member string
  | mastery MasteryCard

text \<open>
  \<open>vignette_member k\<close> is the item \<open>{type: 'vignette', data: m}\<close> whose data is the member
  \<open>m\<close> of \<open>Object.prototype\<close> named \<open>k\<close>.
\<close>

definition prop_key :: "string option \<Rightarrow> string" where
  \<comment> \<open>the property name that a \<open>cardId\<close> is converted to\<close>
  "prop_key cid = (case cid of Some k \<Rightarrow> k | None \<Rightarrow> ''undefined'')"

fun find_mastery :: "(string \<times> MasteryCard list) list \<Rightarrow> string option \<Rightarrow> MasteryCard option" where
  \<comment> \<open>the loop \<open>for (const parentId in masteryCards)\<close> with \<open>c.id === s.cardId\<close>; the
      collections are given in the order of the enumeration\<close>
  "find_mastery [] cid = None"
| "find_mastery ((parentId, cards) # rest) cid =
     (case find (\<lambda>c. Some (id_m c) = cid) cards of
        Some found \<Rightarrow> Some found
      | None \<Rightarrow> find_mastery rest cid)"

definition resolve_item ::
  "(string \<rightharpoonup> Question) \<Rightarrow> (string \<times> MasteryCard list) list \<Rightarrow> SRSState \<Rightarrow> SRSItem option" where
  \<comment> \<open>the function mapped over the due states; \<open>None\<close> is \<open>null\<close>\<close>
  "resolve_item questionLibrary masteryCards s =
     (case js_get questionLibrary (prop_key (cardId s)) of
        own q \<Rightarrow> Some (vignette q)
      | inherited \<Rightarrow> Some (vignette_member (prop_key (cardId s)))
      | absent \<Rightarrow>
          (case find_mastery masteryCards (cardId s) of
             Some found \<Rightarrow> Some (mastery found)
           | None \<Rightarrow> None))"

definition dueSRSItems ::
  "real \<Rightarrow> SRSState list \<Rightarrow> (string \<rightharpoonup> Question) \<Rightarrow> (string \<times> MasteryCard list) list \<Rightarrow> SRSItem list" where
  \<comment> \<open>\<open>now\<close> is the value of \<open>Date.now()\<close>, the list is \<open>Object.values(srsStates)\<close>\<close>
  "dueSRSItems now srsStates questionLibrary masteryCards =
     (let due = filter (\<lambda>s. jle (nextReview s) (Fin now)) srsStates
      in List.map_filter (\<lambda>i. i) (map (resolve_item questionLibrary masteryCards) due))"

text \<open>
  The resolution as the specification words it: a due card is looked up by its id in the
  collection of the bookmarked questions first and in the mastery collections otherwise,
  and is left out when neither has it.
\<close>

definition resolve_bookmarked ::
  "Question list \<Rightarrow> (string \<times> MasteryCard list) list \<Rightarrow> SRSState \<Rightarrow> SRSItem option" where
  "resolve_bookmarked bookmarks masteryCards s =
     (case find (\<lambda>q. Some (id_q q) = cardId s) bookmarks of
        Some q \<Rightarrow> Some (vignette q)
      | None \<Rightarrow>
          (case find_mastery masteryCards (cardId s) of
             Some found \<Rightarrow> Some (mastery found)
           | None \<Rightarrow> None))"

definition due_by_bookmarks ::
  "real \<Rightarrow> SRSState list \<Rightarrow> Question list \<Rightarrow> (string \<times> MasteryCard list) list \<Rightarrow> SRSItem list" where
  "due_by_bookmarks now srsStates bookmarks masteryCards =
     List.map_filter (\<lambda>i. i)
       (map (resolve_bookmarked bookmarks masteryCards)
          (filter (\<lambda>s. jle (nextReview s) (Fin now)) srsStates))"

section \<open>Lifetime statistics: \<open>DatabaseService.updateAnalytics\<close>\<close>

record LifetimeStats =
  totalQuestions_lt :: jsnum
  totalCorrect :: jsnum
  totalHours :: jsnum
  avgAccuracy :: jsnum
  firstSessionDate :: jsnum

typedecl StudyPlan

record Store =
  history_kv :: "HistoricalSession list option"
  bookmarks_kv :: "Question list option"
  masteryCards_kv :: "(string \<times> MasteryCard list) list option"
  srsStates_kv :: "(string \<rightharpoonup> SRSState) option"
  questionLibrary_kv :: "(string \<rightharpoonup> Question) option"
  studyPlan_kv :: "StudyPlan option option"
  lifetimeStats_kv :: "LifetimeStats option"

text \<open>
  The object store \<open>kv\<close>: for each of the seven keys the stored value, \<open>None\<close> when the
  key is absent.  The stored study plan may be \<open>null\<close>, the inner \<open>None\<close>.
\<close>

definition loadHistory :: "Store \<Rightarrow> HistoricalSession list" where
  "loadHistory store = (case history_kv store of Some h \<Rightarrow> h | None \<Rightarrow> [])"

definition sort_value :: "jsnum \<Rightarrow> real" where
  \<comment> \<open>what \<open>Array.prototype.sort\<close> makes of the result of the comparator: \<open>NaN\<close> counts
      as \<open>0\<close>, and only the sign matters\<close>
  "sort_value v = (case v of Fin x \<Rightarrow> x | PInf \<Rightarrow> 1 | NInf \<Rightarrow> - 1 | NaN \<Rightarrow> 0 | Undef \<Rightarrow> 0)"

definition updateAnalytics ::
  "real \<Rightarrow> HistoricalSession list option \<Rightarrow> Store \<Rightarrow> LifetimeStats \<times> Store" where
  \<comment> \<open>returns the statistics and the store after \<open>set('lifetimeStats', ...)\<close>;
      an array is never falsy, so a given \<open>historyOverride\<close> is always taken\<close>
  "updateAnalytics now historyOverride store =
     (let history' = (case historyOverride of Some h \<Rightarrow> h | None \<Rightarrow> loadHistory store)
      in if length history' = 0 then
           let empty = \<lparr>totalQuestions_lt = Fin 0, totalCorrect = Fin 0, totalHours = Fin 0,
                         avgAccuracy = Fin 0, firstSessionDate = Fin now\<rparr>
           in (empty, store\<lparr>lifetimeStats_kv := Some empty\<rparr>)
         else
           let totalQuestions' = foldl (\<lambda>acc s. jadd acc (totalQuestions s)) (Fin 0) history';
               totalCorrect' = foldl (\<lambda>acc s. jadd acc (correctAnswers s)) (Fin 0) history';
               totalTimeMs = foldl (\<lambda>acc s. jadd acc (timeTakenMs s)) (Fin 0) history';
               sortedHistory =
                 js_sort (\<lambda>a b. sort_value (jsub (timestamp a) (timestamp b))) history';
               firstSessionDate' = timestamp (hd sortedHistory);
               stats = \<lparr>totalQuestions_lt = totalQuestions', totalCorrect = totalCorrect',
                         totalHours = toFixed1 (jdiv totalTimeMs (Fin 3600000)),
                         avgAccuracy = jround (jmul (jdiv totalCorrect' totalQuestions') (Fin 100)),
                         firstSessionDate = firstSessionDate'\<rparr>
           in (stats, store\<lparr>lifetimeStats_kv := Some stats\<rparr>))"

section \<open>Import: the validation of \<open>DatabaseService.fullImport\<close>\<close>

text \<open>
  The value that \<open>JSON.parse\<close> returns for the text of a backup.  The validation looks
  at the kind of the value only, so the elements of an array and the fields of an object
  are left out.
\<close>

datatype parsed =
    json_null
  | json_bool bool
  | json_number real
  | json_string string
  | json_array
  | json_object

fun falsy :: "parsed \<Rightarrow> bool" where
  \<comment> \<open>\<open>!parsed\<close>\<close>
  "falsy json_null = True"
| "falsy (json_bool b) = (\<not> b)"
| "falsy (json_number x) = (x = 0)"
| "falsy (json_string s) = (s = [])"
| "falsy json_array = False"
| "falsy json_object = False"

fun js_typeof :: "parsed \<Rightarrow> string" where
  "js_typeof json_null = ''object''"
| "js_typeof (json_bool b) = ''boolean''"
| "js_typeof (json_number x) = ''number''"
| "js_typeof (json_string s) = ''string''"
| "js_typeof json_array = ''object''"
| "js_typeof json_object = ''object''"

definition invalid_backup :: "parsed option \<Rightarrow> bool" where
  \<comment> \<open>the import throws before \<open>resetData\<close>, and so before it touches the store:
      \<open>JSON.parse\<close> throws, which is the argument \<open>None\<close>, or
      \<open>!parsed || typeof parsed !== 'object'\<close> holds.  Nothing after this test looks at
      the kind of the value\<close>
  "invalid_backup r =
     (case r of
        None \<Rightarrow> True
      | Some p \<Rightarrow> falsy p \<or> js_typeof p \<noteq> ''object'')"

section \<open>Properties of the rounding\<close>

lemma pow2_pos: "0 < pow2 e"
  by (simp add: pow2_def)

lemma pow2_add: "pow2 (a + b) = pow2 a * pow2 b"
  by (simp add: pow2_def powr_add)

lemma pow2_nat: "pow2 (int k) = 2 ^ k"
  by (simp add: pow2_def powr_realpow)

lemma pow2_neg_nat: "pow2 (- int k) = 1 / 2 ^ k"
  by (simp add: pow2_def powr_minus_divide powr_realpow)

lemma pow2_mono: "a \<le> b \<Longrightarrow> pow2 a \<le> pow2 b"
  by (simp add: pow2_def)

lemma round_even_int: "round_even (of_int n) = n"
  by (simp add: round_even_def)

lemma round_even_error: "\<bar>of_int (round_even t) - t\<bar> \<le> 1 / 2"
proof -
  have "of_int \<lfloor>t\<rfloor> \<le> t" "t < of_int \<lfloor>t\<rfloor> + 1" by linarith+
  then show ?thesis by (auto simp add: round_even_def Let_def)
qed

lemma expo_eq:
  assumes "x \<noteq> 0" and "pow2 (e + 52) \<le> \<bar>x\<bar>" and "\<bar>x\<bar> < pow2 (e + 53)" and "- 1074 \<le> e"
  shows "expo x = e"
proof -
  have "\<lfloor>log 2 \<bar>x\<bar>\<rfloor> = e + 52"
    using assms by (subst floor_log_eq_powr_iff) (simp_all add: pow2_def add.commute)
  then show ?thesis using assms(4) by (simp add: expo_def)
qed

lemma fl_eval:
  assumes "x \<noteq> 0" and "pow2 (e + 52) \<le> \<bar>x\<bar>" and "\<bar>x\<bar> < pow2 (e + 53)" and "- 1074 \<le> e"
  shows "fl x = of_int (round_even (x / pow2 e)) * pow2 e"
  using assms by (simp add: fl_def expo_eq)

lemma pow2_52: "pow2 52 = 2 ^ 52" and pow2_53: "pow2 53 = 2 ^ 53"
  using pow2_nat [of 52] pow2_nat [of 53] by simp_all

lemma fl_eval_up:
  assumes "2 ^ 52 \<le> \<bar>x\<bar> * 2 ^ k" and "\<bar>x\<bar> * 2 ^ k < 2 ^ 53" and "k \<le> 1074"
  shows "fl x = of_int (round_even (x * 2 ^ k)) / 2 ^ k"
proof -
  have x: "x \<noteq> 0" using assms(1) by auto
  have p: "pow2 (- int k) = 1 / 2 ^ k" by (rule pow2_neg_nat)
  have "pow2 (- int k + 52) = 2 ^ 52 / 2 ^ k" unfolding pow2_add p pow2_52 by simp
  also have "\<dots> \<le> \<bar>x\<bar>" using assms(1) by (simp add: field_simps)
  finally have a: "pow2 (- int k + 52) \<le> \<bar>x\<bar>" .
  have "\<bar>x\<bar> < 2 ^ 53 / 2 ^ k" using assms(2) by (simp add: field_simps)
  also have "\<dots> = pow2 (- int k + 53)" unfolding pow2_add p pow2_53 by simp
  finally have b: "\<bar>x\<bar> < pow2 (- int k + 53)" .
  have c: "- 1074 \<le> - int k" using assms(3) by simp
  from fl_eval [OF x a b c] show ?thesis unfolding p by simp
qed

lemma fl_eval_down:
  assumes "2 ^ 52 \<le> \<bar>x\<bar> / 2 ^ k" and "\<bar>x\<bar> / 2 ^ k < 2 ^ 53"
  shows "fl x = of_int (round_even (x / 2 ^ k)) * 2 ^ k"
proof -
  have x: "x \<noteq> 0" using assms(1) by auto
  have "pow2 (int k + 52) = 2 ^ 52 * 2 ^ k" unfolding pow2_add pow2_nat pow2_52 by simp
  also have "\<dots> \<le> \<bar>x\<bar>" using assms(1) by (simp add: field_simps)
  finally have a: "pow2 (int k + 52) \<le> \<bar>x\<bar>" .
  have "\<bar>x\<bar> < 2 ^ 53 * 2 ^ k" using assms(2) by (simp add: field_simps)
  also have "\<dots> = pow2 (int k + 53)" unfolding pow2_add pow2_nat pow2_53 by simp
  finally have b: "\<bar>x\<bar> < pow2 (int k + 53)" .
  have c: "- 1074 \<le> int k" by simp
  from fl_eval [OF x a b c] show ?thesis unfolding pow2_nat by simp
qed

lemma floor_log2_bounds:
  assumes "0 < x"
  shows "pow2 \<lfloor>log 2 x\<rfloor> \<le> x" and "x < pow2 (\<lfloor>log 2 x\<rfloor> + 1)"
  using floor_log_eq_powr_iff [of x 2 "\<lfloor>log 2 x\<rfloor>"] assms by (simp_all add: pow2_def)

lemma floor_log2_ge:
  assumes "pow2 k \<le> x"
  shows "k \<le> \<lfloor>log 2 x\<rfloor>"
proof -
  have x: "0 < x" using assms pow2_pos [of k] by linarith
  have "of_int k \<le> log 2 x" using assms x by (simp add: le_log_iff pow2_def)
  then show ?thesis by (simp add: le_floor_iff)
qed

lemma floor_log2_less:
  assumes "0 < x" and "x < pow2 k"
  shows "\<lfloor>log 2 x\<rfloor> < k"
proof -
  have "log 2 x < of_int k" using assms by (simp add: log_less_iff pow2_def)
  then show ?thesis by (simp add: floor_less_iff)
qed

lemma fl_error:
  assumes "pow2 (- 1022) \<le> \<bar>x\<bar>"
  shows "\<bar>fl x - x\<bar> \<le> \<bar>x\<bar> / 2 ^ 53"
proof -
  have x: "0 < \<bar>x\<bar>" using assms pow2_pos [of "- 1022"] by linarith
  then have x0: "x \<noteq> 0" by simp
  define E where "E = \<lfloor>log 2 \<bar>x\<bar>\<rfloor>"
  define e where "e = E - 52"
  have E: "pow2 E \<le> \<bar>x\<bar>" unfolding E_def using x by (rule floor_log2_bounds)
  have le: "- 1022 \<le> E" unfolding E_def using assms by (rule floor_log2_ge)
  have "expo x = max (E - 52) (- 1074)" by (simp add: expo_def E_def)
  with le have ex: "expo x = e" by (simp add: e_def)
  have pe: "pow2 e = pow2 E / 2 ^ 52"
    using pow2_add [of E "- int 52"] pow2_neg_nat [of 52] by (simp add: e_def)
  define t where "t = x / pow2 e"
  have xt: "x = t * pow2 e" using pow2_pos [of e] by (simp add: t_def)
  have flx: "fl x = of_int (round_even t) * pow2 e" using x0 ex by (simp add: fl_def t_def)
  have "fl x - x = of_int (round_even t) * pow2 e - t * pow2 e" using flx xt by argo
  also have "\<dots> = (of_int (round_even t) - t) * pow2 e" by (simp add: algebra_simps)
  finally have "fl x - x = (of_int (round_even t) - t) * pow2 e" .
  then have "\<bar>fl x - x\<bar> = \<bar>of_int (round_even t) - t\<bar> * pow2 e"
    using pow2_pos [of e] by (simp add: abs_mult)
  also have "\<dots> \<le> (1 / 2) * pow2 e"
    using round_even_error [of t] pow2_pos [of e] by (intro mult_right_mono) simp_all
  also have "\<dots> \<le> \<bar>x\<bar> / 2 ^ 53" using E by (simp add: pe field_simps)
  finally show ?thesis .
qed

lemma fl_int:
  assumes "\<bar>n\<bar> < 2 ^ 53"
  shows "fl (of_int n) = of_int n"
proof (cases "n = 0")
  case True
  then show ?thesis by (simp add: fl_def)
next
  case False
  define x :: real where "x = \<bar>of_int n\<bar>"
  have x1: "1 \<le> x" using False by (simp add: x_def)
  then have x: "0 < x" by simp
  define E where "E = \<lfloor>log 2 x\<rfloor>"
  have "pow2 0 \<le> x" using x1 by (simp add: pow2_def)
  then have E0: "0 \<le> E" unfolding E_def by (rule floor_log2_ge)
  have "x < 2 ^ 53" using assms unfolding x_def by (metis of_int_abs of_int_less_numeral_power_cancel_iff)
  then have "x < pow2 53" by (simp add: pow2_53)
  then have E53: "E < 53" unfolding E_def using x by (intro floor_log2_less)
  define k where "k = nat (52 - E)"
  have "expo (of_int n) = max (E - 52) (- 1074)" by (simp add: expo_def E_def x_def)
  with E0 E53 have ex: "expo (of_int n) = - int k" by (simp add: k_def)
  have p: "pow2 (- int k) = 1 / 2 ^ k" by (rule pow2_neg_nat)
  have "of_int n / pow2 (- int k) = (of_int (n * 2 ^ k) :: real)" by (simp add: p)
  then have "round_even (of_int n / pow2 (- int k)) = n * 2 ^ k"
    by (simp only: round_even_int)
  then show ?thesis using False by (simp add: fl_def ex p)
qed

lemma fl_numeral: "numeral w < (2 ^ 53 :: int) \<Longrightarrow> fl (numeral w) = numeral w"
  using fl_int [of "numeral w"] by simp

lemma fl_0: "fl 0 = 0" and fl_1: "fl 1 = 1"
  using fl_int [of 0] fl_int [of 1] by simp_all

lemma max_double_ge: "2 ^ 1023 \<le> max_double"
proof -
  have "(2::real) ^ 1023 = 2 ^ 52 * 2 ^ 971" by (simp flip: power_add)
  also have "\<dots> \<le> (2 ^ 53 - 1) * 2 ^ 971" by (intro mult_right_mono) simp_all
  finally show ?thesis by (simp add: max_double_def)
qed

lemma fl_round_Fin: "\<bar>fl x\<bar> \<le> 2 ^ 1023 \<Longrightarrow> fl_round x = Fin (fl x)"
  using max_double_ge by (auto simp add: fl_round_def)

lemma fl_round_cases: "fl_round x = PInf \<or> fl_round x = NInf \<or> fl_round x = Fin (fl x)"
  by (simp add: fl_round_def)

lemma fl_round_int: "\<bar>n\<bar> < 2 ^ 53 \<Longrightarrow> fl_round (of_int n) = Fin (of_int n)"
proof -
  assume a: "\<bar>n\<bar> < 2 ^ 53"
  then have "\<bar>of_int n :: real\<bar> < 2 ^ 53" by (metis of_int_abs of_int_less_numeral_power_cancel_iff)
  also have "(2::real) ^ 53 \<le> 2 ^ 1023" by (intro power_increasing) simp_all
  finally show ?thesis using a by (simp add: fl_round_Fin fl_int)
qed

lemma fl_round_numeral: "numeral w < (2 ^ 53 :: int) \<Longrightarrow> fl_round (numeral w) = Fin (numeral w)"
  using fl_round_int [of "numeral w"] by simp

lemma fl_round_0: "fl_round 0 = Fin 0" and fl_round_1: "fl_round 1 = Fin 1"
  using fl_round_int [of 0] fl_round_int [of 1] by simp_all

section \<open>Properties of the spaced-repetition transition\<close>

text \<open>
  Claim C1.  For every stored card state and every rating, \<open>updateSRS\<close> stores exactly
  the state of the transition rules, computed in doubles as the source computes it:
  \<open>again\<close> resets repetitions and interval to \<open>0\<close> and lowers the ease by \<open>0.2\<close>, not
  below \<open>1.3\<close>; any other rating sets the interval to \<open>1\<close> after no repetition, to \<open>6\<close>
  after one, and otherwise to the ceiling of the old interval times \<open>1.2\<close> (hard), the old
  ease (good) or the old ease times \<open>1.5\<close> (easy), adds one repetition, and changes the
  ease by \<open>- 0.15\<close> floored at \<open>1.3\<close> (hard), by \<open>+ 0.15\<close> (easy) or not at all (good);
  the next review is always \<open>now\<close> plus the new interval in days, counted in
  milliseconds.
\<close>

theorem updateSRS_transition:
  assumes "prev cid = Some c"
  shows "\<exists>c'. updateSRS now cid r prev cid = Some c' \<and>
     (r = again \<longrightarrow>
        repetitions c' = Fin 0 \<and> interval c' = Fin 0 \<and>
        ease c' = jmax (lit (13 / 10)) (jsub (ease c) (lit (2 / 10)))) \<and>
     (r \<noteq> again \<longrightarrow>
        interval c' =
          (if jeq (repetitions c) (Fin 0) then Fin 1
           else if jeq (repetitions c) (Fin 1) then Fin 6
           else jceil (jmul (interval c)
                  (if r = hard then lit (12 / 10) else if r = good then ease c
                   else jmul (ease c) (lit (15 / 10))))) \<and>
        repetitions c' = jadd (repetitions c) (Fin 1) \<and>
        ease c' =
          (if r = hard then jmax (lit (13 / 10)) (jsub (ease c) (lit (15 / 100)))
           else if r = easy then jadd (ease c) (lit (15 / 100)) else ease c)) \<and>
     nextReview c' =
       jadd (Fin now) (jmul (jmul (jmul (jmul (interval c') (Fin 24)) (Fin 60)) (Fin 60)) (Fin 1000)) \<and>
     cardId c' = cardId c"
  using assms
  by (cases r) (simp_all add: updateSRS_def js_get_def rate_card_def multiplier_def Let_def)

text \<open>
  The doubles of some literals and products, for the evaluation of examples.  At interval
  \<open>20\<close>, ease \<open>2.1\<close> and two repetitions the rating \<open>easy\<close> gives the interval \<open>64\<close>:
  the rounded product is just above \<open>63\<close>.
\<close>

lemma lit_21: "lit (21 / 10) = Fin (4728779608739021 / 2 ^ 51)"
  unfolding lit_def
  by (subst fl_round_Fin; subst fl_eval_up [where k = 51]) (simp_all add: round_even_def)

lemma lit_15: "lit (15 / 10) = Fin (3 / 2)"
  unfolding lit_def
  by (subst fl_round_Fin; subst fl_eval_up [where k = 52]) (simp_all add: round_even_def)

lemma lit_015: "lit (15 / 100) = Fin (5404319552844595 / 2 ^ 55)"
  unfolding lit_def
  by (subst fl_round_Fin; subst fl_eval_up [where k = 55]) (simp_all add: round_even_def)

lemma mul_21_15: "jmul (Fin (4728779608739021 / 2 ^ 51)) (Fin (3 / 2)) = Fin (7093169413108532 / 2 ^ 51)"
  unfolding jmul.simps
  by (subst fl_round_Fin; subst fl_eval_up [where k = 51]) (simp_all add: round_even_def)

lemma mul_20: "jmul (Fin 20) (Fin (7093169413108532 / 2 ^ 51)) = Fin (8866461766385665 / 2 ^ 47)"
  unfolding jmul.simps
  by (subst fl_round_Fin; subst fl_eval_up [where k = 47]) (simp_all add: round_even_def)

lemma interval_example:
  "jceil (jmul (Fin 20) (jmul (lit (21 / 10)) (lit (15 / 10)))) = Fin 64"
proof -
  have "jmul (Fin 20) (jmul (lit (21 / 10)) (lit (15 / 10))) = Fin (8866461766385665 / 2 ^ 47)"
    by (simp only: lit_21 lit_15 mul_21_15 mul_20)
  then show ?thesis by simp
qed

theorem updateSRS_transition_witness:
  "\<exists>c'. updateSRS 1000 ''q1'' easy
          [''q1'' \<mapsto> \<lparr>cardId = Some ''q1'', nextReview = Fin 0, interval = Fin 20,
                        ease = lit (21 / 10), repetitions = Fin 2\<rparr>] ''q1''
        = Some c' \<and> interval c' = Fin 64 \<and> repetitions c' = Fin 3 \<and>
        nextReview c' = Fin 5529601000 \<and> cardId c' = Some ''q1''"
  using updateSRS_transition [of
      "[''q1'' \<mapsto> \<lparr>cardId = Some ''q1'', nextReview = Fin 0, interval = Fin 20,
                        ease = lit (21 / 10), repetitions = Fin 2\<rparr>]"
      "''q1''"
      "\<lparr>cardId = Some ''q1'', nextReview = Fin 0, interval = Fin 20,
                        ease = lit (21 / 10), repetitions = Fin 2\<rparr>"
      1000 easy]
    interval_example
  by (auto simp add: fl_round_numeral)

lemma lit_13: "lit (13 / 10) = Fin (5854679515581645 / 2 ^ 52)"
  unfolding lit_def
  by (subst fl_round_Fin; subst fl_eval_up [where k = 52]) (simp_all add: round_even_def)

lemma lit_23: "lit (23 / 10) = Fin (5179139571476070 / 2 ^ 51)"
  unfolding lit_def
  by (subst fl_round_Fin; subst fl_eval_up [where k = 51]) (simp_all add: round_even_def)

lemma lit_02: "lit (2 / 10) = Fin (7205759403792794 / 2 ^ 55)"
  unfolding lit_def
  by (subst fl_round_Fin; subst fl_eval_up [where k = 55]) (simp_all add: round_even_def)

lemma jle_trans_Fin: "a \<le> b \<Longrightarrow> jle (Fin b) v \<Longrightarrow> jle (Fin a) v"
  by (cases v) simp_all

lemma fl_lower:
  assumes "1 \<le> y"
  shows "y * (1 - 1 / 2 ^ 53) \<le> fl y"
proof -
  have "pow2 (- 1022) \<le> pow2 0" by (rule pow2_mono) simp
  also have "pow2 0 = 1" by (simp add: pow2_def)
  finally have "pow2 (- 1022) \<le> \<bar>y\<bar>" using assms by simp
  from fl_error [OF this] have "\<bar>fl y - y\<bar> \<le> y / 2 ^ 53" using assms by simp
  then have "y - y / 2 ^ 53 \<le> fl y" by linarith
  then show ?thesis by (simp add: algebra_simps)
qed

lemma fl_round_lower:
  assumes "1 \<le> y" and "k \<le> y * (1 - 1 / 2 ^ 53)"
  shows "jle (Fin k) (fl_round y)"
proof -
  have lo: "y * (1 - 1 / 2 ^ 53) \<le> fl y" using assms(1) by (rule fl_lower)
  have "0 \<le> y * (1 - 1 / 2 ^ 53)" using assms(1) by simp
  with lo have pos: "0 \<le> fl y" by linarith
  have "0 \<le> max_double" using max_double_ge by (smt (verit) zero_le_power)
  with pos have "\<not> fl y < - max_double" by linarith
  moreover have "k \<le> fl y" using lo assms(2) by linarith
  ultimately show ?thesis by (simp add: fl_round_def)
qed

lemma jmax_lower: "\<not> is_nan y \<Longrightarrow> jle (Fin a) (jmax (Fin a) y)"
  by (cases y) (simp_all add: jmax_def)

lemma jsub_Fin_not_nan: "jle (Fin a) e \<Longrightarrow> \<not> is_nan (jsub e (Fin d))"
proof (cases e)
  case (Fin x)
  show ?thesis using fl_round_cases [of "x + - d"] by (auto simp add: jsub_def Fin)
qed (simp_all add: jsub_def)

lemma jadd_015_floor:
  assumes "jle (lit (13 / 10)) e"
  shows "jle (lit (13 / 10)) (jadd e (lit (15 / 100)))"
proof (cases e)
  case (Fin x)
  let ?a = "5854679515581645 / 2 ^ 52 :: real" and ?d = "5404319552844595 / 2 ^ 55 :: real"
  have x: "?a \<le> x" using assms by (simp add: lit_13 Fin)
  have one: "1 \<le> x + ?d" using x by simp
  have "?a \<le> (?a + ?d) * (1 - 1 / 2 ^ 53)" by simp
  also have "\<dots> \<le> (x + ?d) * (1 - 1 / 2 ^ 53)" using x by (intro mult_right_mono) simp_all
  finally have "jle (Fin ?a) (fl_round (x + ?d))" using one by (intro fl_round_lower)
  then show ?thesis by (simp only: lit_13 lit_015 Fin jadd.simps)
next
  case PInf
  then show ?thesis unfolding lit_13 lit_015 by simp
qed (use assms [unfolded lit_13] in simp_all)

lemma rate_card_ease:
  "ease (rate_card now c r) =
     (if r = again then jmax (lit (13 / 10)) (jsub (ease c) (lit (2 / 10)))
      else if r = hard then jmax (lit (13 / 10)) (jsub (ease c) (lit (15 / 100)))
      else if r = easy then jadd (ease c) (lit (15 / 100))
      else ease c)"
  by (cases r) (simp_all add: rate_card_def Let_def)

lemma rate_card_ease_floor:
  assumes "jle (lit (13 / 10)) (ease c)"
  shows "jle (lit (13 / 10)) (ease (rate_card now c r))"
proof (cases r)
  case again
  have "\<not> is_nan (jsub (ease c) (lit (2 / 10)))"
    using assms unfolding lit_13 lit_02 by (rule jsub_Fin_not_nan)
  then have "jle (lit (13 / 10)) (jmax (lit (13 / 10)) (jsub (ease c) (lit (2 / 10))))"
    unfolding lit_13 by (rule jmax_lower)
  then show ?thesis unfolding rate_card_ease again by simp
next
  case hard
  have "\<not> is_nan (jsub (ease c) (lit (15 / 100)))"
    using assms unfolding lit_13 lit_015 by (rule jsub_Fin_not_nan)
  then have "jle (lit (13 / 10)) (jmax (lit (13 / 10)) (jsub (ease c) (lit (15 / 100))))"
    unfolding lit_13 by (rule jmax_lower)
  then show ?thesis unfolding rate_card_ease hard by simp
next
  case good
  then show ?thesis using assms unfolding rate_card_ease by simp
next
  case easy
  then show ?thesis using jadd_015_floor [OF assms] unfolding rate_card_ease by simp
qed

lemma rate_all_ease_floor:
  "jle (lit (13 / 10)) (ease c) \<Longrightarrow> jle (lit (13 / 10)) (ease (rate_all c rs))"
proof (induction rs arbitrary: c)
  case Nil
  then show ?case by simp
next
  case (Cons x rs)
  obtain now r where x: "x = (now, r)" by (cases x)
  from Cons.prems have "jle (lit (13 / 10)) (ease (rate_card now c r))"
    by (rule rate_card_ease_floor)
  then have "jle (lit (13 / 10)) (ease (rate_all (rate_card now c r) rs))" by (rule Cons.IH)
  then show ?case unfolding x by simp
qed

text \<open>
  Claim C2.  A card that starts at the creation baseline, ease \<open>2.3\<close>, has an ease of at
  least \<open>1.3\<close> after every application of every finite sequence of ratings: at least the
  double \<open>1.3\<close> of the source, which is itself not below the real number \<open>1.3\<close>.
\<close>

theorem ease_floor:
  assumes "ease c = lit (23 / 10)" and "n \<le> length rs"
  shows "jle (lit (13 / 10)) (ease (rate_all c (take n rs))) \<and>
         jle (Fin (13 / 10)) (ease (rate_all c (take n rs)))"
proof -
  have "jle (lit (13 / 10)) (ease c)" unfolding assms(1) lit_13 lit_23 by simp
  then have a: "jle (lit (13 / 10)) (ease (rate_all c (take n rs)))" by (rule rate_all_ease_floor)
  then have "jle (Fin (13 / 10)) (ease (rate_all c (take n rs)))"
    unfolding lit_13 by (rule jle_trans_Fin [rotated]) simp
  with a show ?thesis by simp
qed

theorem ease_floor_witness:
  "jle (lit (13 / 10)) (ease (rate_all (default_state ''q1'')
      (take 3 [(10, again), (20, again), (30, hard), (40, again), (50, easy)]))) \<and>
   jle (Fin (13 / 10)) (ease (rate_all (default_state ''q1'')
      (take 3 [(10, again), (20, again), (30, hard), (40, again), (50, easy)])))"
  using ease_floor [of "default_state ''q1''" 3 "[(10, again), (20, again), (30, hard), (40, again), (50, easy)]"]
  by (simp add: default_state_def)

lemma rate_all_append: "rate_all c (xs @ ys) = rate_all (rate_all c xs) ys"
  by (induction c xs rule: rate_all.induct) simp_all

lemma good_streak_snoc: "good_streak c (ts @ [t]) = rate_card t (good_streak c ts) good"
  by (simp add: good_streak_def rate_all_append)

lemma rate_card_good:
  "ease (rate_card t s good) = ease s"
  "repetitions (rate_card t s good) = jadd (repetitions s) (Fin 1)"
  "interval (rate_card t s good) =
     (if jeq (repetitions s) (Fin 0) then Fin 1 else if jeq (repetitions s) (Fin 1) then Fin 6
      else jceil (jmul (interval s) (ease s)))"
  by (simp_all add: rate_card_def multiplier_def Let_def)

lemma jadd_1_ge_2:
  assumes "jle (Fin 2) r"
  shows "jle (Fin 2) (jadd r (Fin 1))"
proof (cases r)
  case (Fin x)
  then have x: "2 \<le> x" using assms by simp
  have "2 \<le> (2 + 1) * (1 - 1 / 2 ^ 53 :: real)" by simp
  also have "\<dots> \<le> (x + 1) * (1 - 1 / 2 ^ 53)" using x by (intro mult_right_mono) simp_all
  finally have "jle (Fin 2) (fl_round (x + 1))" using x by (intro fl_round_lower) simp_all
  then show ?thesis by (simp add: Fin)
qed (use assms in simp_all)

lemma jmul_23_grows:
  assumes "jle (Fin 6) i"
  shows "jle i (jmul i (lit (23 / 10)))"
proof (cases i)
  case (Fin x)
  let ?e = "5179139571476070 / 2 ^ 51 :: real"
  have x: "6 \<le> x" using assms Fin by simp
  have "x * 1 \<le> x * (?e * (1 - 1 / 2 ^ 53))" using x by (intro mult_left_mono) simp_all
  then have a: "x \<le> x * ?e * (1 - 1 / 2 ^ 53)" by (simp add: mult.assoc)
  have "1 * 1 \<le> x * ?e" using x by (intro mult_mono) simp_all
  then have "1 \<le> x * ?e" by simp
  then have "jle (Fin x) (fl_round (x * ?e))" using a by (rule fl_round_lower)
  then show ?thesis unfolding lit_23 Fin by simp
next
  case PInf
  then show ?thesis unfolding lit_23 by simp
qed (use assms in simp_all)

lemma jle_trans_6: "jle (Fin 6) i \<Longrightarrow> jle i j \<Longrightarrow> jle (Fin 6) j"
  by (cases i; cases j) simp_all

lemma jle_mono_jceil:
  assumes "jle i v"
  shows "jle i (jceil v)"
proof (cases v)
  case (Fin w)
  have w: "w \<le> of_int \<lceil>w\<rceil>" by (rule le_of_int_ceiling)
  show ?thesis
  proof (cases i)
    case (Fin x)
    with assms \<open>v = Fin w\<close> have "x \<le> w" by simp
    with w have "x \<le> of_int \<lceil>w\<rceil>" by linarith
    then show ?thesis using Fin \<open>v = Fin w\<close> by simp
  qed (use assms \<open>v = Fin w\<close> in simp_all)
qed (use assms in simp_all)

lemma not_jeq_small: "jle (Fin 2) r \<Longrightarrow> \<not> jeq r (Fin 0) \<and> \<not> jeq r (Fin 1)"
  by (cases r) simp_all

lemma good_streak_invariant:
  assumes "interval c = Fin 0" and "repetitions c = Fin 0" and "ease c = lit (23 / 10)"
  shows "ease (good_streak c ts) = ease c \<and>
         (length ts = 0 \<longrightarrow> interval (good_streak c ts) = Fin 0 \<and> repetitions (good_streak c ts) = Fin 0) \<and>
         (length ts = 1 \<longrightarrow> interval (good_streak c ts) = Fin 1 \<and> repetitions (good_streak c ts) = Fin 1) \<and>
         (length ts = 2 \<longrightarrow> interval (good_streak c ts) = Fin 6 \<and> repetitions (good_streak c ts) = Fin 2) \<and>
         (2 \<le> length ts \<longrightarrow>
            jle (Fin 6) (interval (good_streak c ts)) \<and> jle (Fin 2) (repetitions (good_streak c ts)))"
proof (induction ts rule: rev_induct)
  case Nil
  show ?case using assms(1,2) by (simp add: good_streak_def)
next
  case (snoc t ts)
  let ?s = "good_streak c ts"
  from snoc have e: "ease ?s = ease c" by simp
  consider "length ts = 0" | "length ts = 1" | "2 \<le> length ts" by linarith
  then show ?case
  proof cases
    case 1
    with snoc have "interval ?s = Fin 0" "repetitions ?s = Fin 0" by simp_all
    then show ?thesis unfolding good_streak_snoc rate_card_good using 1 e
      by (simp add: fl_round_1)
  next
    case 2
    with snoc have "interval ?s = Fin 1" "repetitions ?s = Fin 1" by simp_all
    then show ?thesis unfolding good_streak_snoc rate_card_good using 2 e
      by (simp add: fl_round_numeral)
  next
    case 3
    with snoc have i: "jle (Fin 6) (interval ?s)" and r: "jle (Fin 2) (repetitions ?s)" by simp_all
    have r': "jle (Fin 2) (jadd (repetitions ?s) (Fin 1))" using r by (rule jadd_1_ge_2)
    have "jle (interval ?s) (jmul (interval ?s) (ease ?s))"
      unfolding e assms(3) using i by (rule jmul_23_grows)
    then have "jle (interval ?s) (jceil (jmul (interval ?s) (ease ?s)))" by (rule jle_mono_jceil)
    with i have i': "jle (Fin 6) (jceil (jmul (interval ?s) (ease ?s)))" by (rule jle_trans_6)
    have n: "length (ts @ [t]) \<noteq> 0" "length (ts @ [t]) \<noteq> 1" "length (ts @ [t]) \<noteq> 2"
      using 3 by auto
    have iv: "interval (good_streak c (ts @ [t])) = jceil (jmul (interval ?s) (ease ?s))"
      unfolding good_streak_snoc rate_card_good using not_jeq_small [OF r] by simp
    have rp: "repetitions (good_streak c (ts @ [t])) = jadd (repetitions ?s) (Fin 1)"
      unfolding good_streak_snoc rate_card_good by simp
    have ea: "ease (good_streak c (ts @ [t])) = ease c"
      unfolding good_streak_snoc rate_card_good by (rule e)
    show ?thesis using n ea i' r' unfolding iv rp by blast
  qed
qed

lemma mul_6_23: "jmul (Fin 6) (lit (23 / 10)) = Fin (7768709357214105 / 2 ^ 49)"
  unfolding lit_23 jmul.simps
  by (subst fl_round_Fin; subst fl_eval_up [where k = 49]) (simp_all add: round_even_def)

lemma mul_14_23: "jmul (Fin 14) (lit (23 / 10)) = Fin (4531747125041561 / 2 ^ 47)"
  unfolding lit_23 jmul.simps
  by (subst fl_round_Fin; subst fl_eval_up [where k = 47]) (simp_all add: round_even_def)

lemma mul_33_23: "jmul (Fin 33) (lit (23 / 10)) = Fin (5340987683084697 / 2 ^ 46)"
  unfolding lit_23 jmul.simps
  by (subst fl_round_Fin; subst fl_eval_up [where k = 46]) (simp_all add: round_even_def)

lemma ceil_6_23: "jceil (jmul (Fin 6) (lit (23 / 10))) = Fin 14"
  unfolding mul_6_23 by simp

lemma ceil_14_23: "jceil (jmul (Fin 14) (lit (23 / 10))) = Fin 33"
  unfolding mul_14_23 by simp

lemma ceil_33_23: "jceil (jmul (Fin 33) (lit (23 / 10))) = Fin 76"
  unfolding mul_33_23 by simp

text \<open>
  Claim C3.  From a fresh card (interval \<open>0\<close>, no repetition, ease \<open>2.3\<close>) rated
  \<open>good\<close> again and again, the intervals are \<open>0\<close>, \<open>1\<close>, \<open>6\<close>, the ceiling of six
  times the ease, which is \<open>14\<close>, and so on, and no rating of the streak makes the
  interval smaller.
\<close>

theorem good_streak_intervals:
  assumes "interval c = Fin 0" and "repetitions c = Fin 0" and "ease c = lit (23 / 10)"
  shows "interval (good_streak c []) = Fin 0 \<and>
         interval (good_streak c [t1]) = Fin 1 \<and>
         interval (good_streak c [t1, t2]) = Fin 6 \<and>
         interval (good_streak c [t1, t2, t3]) = jceil (jmul (Fin 6) (ease c)) \<and>
         interval (good_streak c [t1, t2, t3]) = Fin 14 \<and>
         (\<forall>ts t. jle (interval (good_streak c ts)) (interval (good_streak c (ts @ [t]))))"
proof -
  have mono: "jle (interval (good_streak c ts)) (interval (good_streak c (ts @ [t])))" for ts t
  proof -
    let ?s = "good_streak c ts"
    note inv = good_streak_invariant [OF assms, of ts]
    from inv have e: "ease ?s = ease c" by simp
    consider "length ts = 0" | "length ts = 1" | "2 \<le> length ts" by linarith
    then show ?thesis
    proof cases
      case 1
      with inv have "interval ?s = Fin 0" "repetitions ?s = Fin 0" by simp_all
      then show ?thesis unfolding good_streak_snoc rate_card_good by simp
    next
      case 2
      with inv have "interval ?s = Fin 1" "repetitions ?s = Fin 1" by simp_all
      then show ?thesis unfolding good_streak_snoc rate_card_good by simp
    next
      case 3
      with inv have i: "jle (Fin 6) (interval ?s)" and r: "jle (Fin 2) (repetitions ?s)" by simp_all
      have "jle (interval ?s) (jmul (interval ?s) (ease ?s))"
        unfolding e assms(3) using i by (rule jmul_23_grows)
      then have "jle (interval ?s) (jceil (jmul (interval ?s) (ease ?s)))" by (rule jle_mono_jceil)
      then show ?thesis unfolding good_streak_snoc rate_card_good using not_jeq_small [OF r] by simp
    qed
  qed
  have s2: "good_streak c [t1, t2, t3] = rate_card t3 (good_streak c [t1, t2]) good"
    using good_streak_snoc [of c "[t1, t2]" t3] by simp
  from good_streak_invariant [OF assms, of "[t1, t2]"]
  have "ease (good_streak c [t1, t2]) = ease c" "repetitions (good_streak c [t1, t2]) = Fin 2"
    "interval (good_streak c [t1, t2]) = Fin 6" by simp_all
  then have three: "interval (good_streak c [t1, t2, t3]) = jceil (jmul (Fin 6) (ease c))"
    unfolding s2 rate_card_good by simp
  have four: "interval (good_streak c [t1, t2, t3]) = Fin 14"
    unfolding three assms(3) by (rule ceil_6_23)
  show ?thesis
    using good_streak_invariant [OF assms, of "[]"] good_streak_invariant [OF assms, of "[t1]"]
      good_streak_invariant [OF assms, of "[t1, t2]"] three four mono
    by simp
qed

lemma good_streak_step:
  assumes "ease (good_streak c ts) = lit (23 / 10)" and "jle (Fin 2) (repetitions (good_streak c ts))"
  shows "interval (good_streak c (ts @ [t])) = jceil (jmul (interval (good_streak c ts)) (lit (23 / 10)))"
  unfolding good_streak_snoc rate_card_good assms(1) using not_jeq_small [OF assms(2)] by simp

theorem good_streak_intervals_witness:
  "map (\<lambda>ts. interval (good_streak (default_state ''q1'') ts))
     [[], [5], [5, 6], [5, 6, 7], [5, 6, 7, 8], [5, 6, 7, 8, 9]]
   = [Fin 0, Fin 1, Fin 6, Fin 14, Fin 33, Fin 76]"
proof -
  let ?c = "default_state ''q1''"
  have f: "interval ?c = Fin 0" "repetitions ?c = Fin 0" "ease ?c = lit (23 / 10)"
    by (simp_all add: default_state_def)
  note main = good_streak_intervals [OF f, of 5 6 7]
  have e: "ease (good_streak ?c ts) = lit (23 / 10)" for ts
    using good_streak_invariant [OF f, of ts] f(3) by simp
  have r: "2 \<le> length ts \<Longrightarrow> jle (Fin 2) (repetitions (good_streak ?c ts))" for ts
    using good_streak_invariant [OF f, of ts] by simp
  have i3: "interval (good_streak ?c [5, 6, 7]) = Fin 14" using main by blast
  have "interval (good_streak ?c ([5, 6, 7] @ [8])) = jceil (jmul (Fin 14) (lit (23 / 10)))"
    using good_streak_step [OF e r, of "[5, 6, 7]" 8] i3 by simp
  then have i4: "interval (good_streak ?c [5, 6, 7, 8]) = Fin 33" unfolding ceil_14_23 by simp
  have "interval (good_streak ?c ([5, 6, 7, 8] @ [9])) = jceil (jmul (Fin 33) (lit (23 / 10)))"
    using good_streak_step [OF e r, of "[5, 6, 7, 8]" 9] i4 by simp
  then have i5: "interval (good_streak ?c [5, 6, 7, 8, 9]) = Fin 76" unfolding ceil_33_23 by simp
  have i0: "interval (good_streak ?c []) = Fin 0" and i1: "interval (good_streak ?c [5]) = Fin 1"
    and i2: "interval (good_streak ?c [5, 6]) = Fin 6"
    using main by blast+
  show ?thesis by (simp only: list.map i0 i1 i2 i3 i4 i5)
qed

text \<open>
  Claim C10 does not hold of the source for an id that names a member of
  \<open>Object.prototype\<close>.  For the untracked id \<open>constructor\<close> the lookup \<open>prev[cardId]\<close>
  finds the inherited member, the default state is not taken, and the rating \<open>again\<close>
  stores a state without \<open>cardId\<close> whose ease is \<open>NaN\<close>; the default state rated
  \<open>again\<close> would keep the id and have an ease of at least \<open>1.3\<close>.
\<close>

theorem updateSRS_inherited_member:
  "updateSRS 1000 ''constructor'' again Map.empty ''constructor'' =
     Some \<lparr>cardId = None, nextReview = Fin 1000, interval = Fin 0, ease = NaN, repetitions = Fin 0\<rparr> \<and>
   (\<exists>e. jle (lit (13 / 10)) e \<and>
     rate_card 1000 (default_state ''constructor'') again =
       \<lparr>cardId = Some ''constructor'', nextReview = Fin 1000, interval = Fin 0, ease = e,
        repetitions = Fin 0\<rparr>)"
proof -
  have a: "updateSRS 1000 ''constructor'' again Map.empty ''constructor'' =
     Some \<lparr>cardId = None, nextReview = Fin 1000, interval = Fin 0, ease = NaN, repetitions = Fin 0\<rparr>"
    by (simp add: updateSRS_def js_get_def proto_members_def inherited_member_def rate_card_def
        Let_def jsub_def jmax_def fl_round_numeral fl_round_0)
  have "jle (lit (13 / 10)) (ease (default_state ''constructor''))"
    unfolding default_state_def lit_13 lit_23 by simp
  then have "jle (lit (13 / 10)) (ease (rate_card 1000 (default_state ''constructor'') again))"
    by (rule rate_card_ease_floor)
  moreover have "rate_card 1000 (default_state ''constructor'') again =
       \<lparr>cardId = Some ''constructor'', nextReview = Fin 1000, interval = Fin 0,
        ease = ease (rate_card 1000 (default_state ''constructor'') again), repetitions = Fin 0\<rparr>"
    by (simp add: default_state_def rate_card_def Let_def fl_round_numeral fl_round_0)
  ultimately show ?thesis using a by blast
qed

text \<open>
  For every other untracked id the default state is rated and stored, and no other card
  changes.
\<close>

lemma updateSRS_absent:
  assumes "prev cid = None" and "cid \<notin> set proto_members"
  shows "updateSRS now cid r prev cid = Some (rate_card now (default_state cid) r) \<and>
         (\<forall>k. k \<noteq> cid \<longrightarrow> updateSRS now cid r prev k = prev k)"
  using assms by (simp add: updateSRS_def js_get_def)

section \<open>Properties of the topic canonicalisation\<close>

lemma is_broad_nonempty: "is_broad tag \<Longrightarrow> tag \<noteq> []"
  by (auto simp add: is_broad_def broadSystems_def toLowerCase_def)

lemma dissect_loop_find:
  assumes "fb \<noteq> Some []"
  shows "dissect_loop fb tgs =
     (case find (\<lambda>t. \<not> is_ignored t \<and> \<not> is_broad t) tgs of
        Some t \<Rightarrow> Some t
      | None \<Rightarrow> (case fb of Some b \<Rightarrow> Some b
                 | None \<Rightarrow> find (\<lambda>t. \<not> is_ignored t \<and> is_broad t) tgs))"
  using assms
proof (induction tgs arbitrary: fb)
  case Nil
  then show ?case by (simp split: option.splits)
next
  case (Cons tag tgs)
  show ?case
  proof (cases "is_ignored tag")
    case True
    then show ?thesis using Cons.IH [OF Cons.prems] by (auto split: option.splits)
  next
    case False
    note ni = this
    show ?thesis
    proof (cases "is_broad tag")
      case True
      then have ne: "tag \<noteq> []" by (rule is_broad_nonempty)
      show ?thesis
      proof (cases fb)
        case None
        have "Some tag \<noteq> Some []" using ne by simp
        from Cons.IH [OF this] show ?thesis using None ni True by (auto split: option.splits)
      next
        case (Some b)
        from Cons.IH [OF Cons.prems] show ?thesis using Some Cons.prems ni True
          by (auto split: option.splits)
      qed
    next
      case False
      then show ?thesis using ni by simp
    qed
  qed
qed

text \<open>
  Claim C4.  \<open>dissectClinicalTopic\<close> goes through the tags in their order, skips every
  tag that contains a term of the ignore list (as a substring, letter case ignored),
  remembers the first tag that contains a term of the broad-system list while it goes on,
  and returns the first tag that contains neither; when there is no such tag it returns
  the remembered broad tag, and \<open>null\<close> when there is none.  The three examples of the
  specification evaluate as stated.
\<close>

theorem dissectClinicalTopic_first_match:
  "dissectClinicalTopic tgs =
     (case find (\<lambda>t. \<not> is_ignored t \<and> \<not> is_broad t) tgs of
        Some t \<Rightarrow> Some t
      | None \<Rightarrow> find (\<lambda>t. \<not> is_ignored t \<and> is_broad t) tgs) \<and>
   dissectClinicalTopic [''Step 2'', ''Cardiology'', ''Aortic Dissection''] = Some ''Aortic Dissection'' \<and>
   dissectClinicalTopic [''USMLE'', ''Surgery''] = Some ''Surgery'' \<and>
   dissectClinicalTopic [''NBME'', ''Step 1''] = None"
proof -
  have general: "dissectClinicalTopic tgs =
     (case find (\<lambda>t. \<not> is_ignored t \<and> \<not> is_broad t) tgs of
        Some t \<Rightarrow> Some t
      | None \<Rightarrow> find (\<lambda>t. \<not> is_ignored t \<and> is_broad t) tgs)"
  proof (cases "tgs = []")
    case True
    then show ?thesis by (simp add: dissectClinicalTopic_def)
  next
    case False
    then show ?thesis using dissect_loop_find [of None tgs] by (auto simp add: dissectClinicalTopic_def split: option.splits)
  qed
  have e1: "dissectClinicalTopic [''Step 2'', ''Cardiology'', ''Aortic Dissection''] = Some ''Aortic Dissection''"
    by code_simp
  have e2: "dissectClinicalTopic [''USMLE'', ''Surgery''] = Some ''Surgery''"
    by code_simp
  have e3: "dissectClinicalTopic [''NBME'', ''Step 1''] = None"
    by code_simp
  from general e1 e2 e3 show ?thesis by blast
qed

theorem dissectClinicalTopic_first_match_witness:
  "dissectClinicalTopic [''Board Review'', ''Renal'', ''Nephrotic Syndrome'', ''Cardiology'']
     = Some ''Nephrotic Syndrome'' \<and>
   find (\<lambda>t. \<not> is_ignored t \<and> is_broad t)
     [''Board Review'', ''Renal'', ''Nephrotic Syndrome'', ''Cardiology''] = Some ''Renal''"
proof -
  have "find (\<lambda>t. \<not> is_ignored t \<and> \<not> is_broad t)
          [''Board Review'', ''Renal'', ''Nephrotic Syndrome'', ''Cardiology'']
        = Some ''Nephrotic Syndrome''"
    by code_simp
  moreover have "find (\<lambda>t. \<not> is_ignored t \<and> is_broad t)
          [''Board Review'', ''Renal'', ''Nephrotic Syndrome'', ''Cardiology''] = Some ''Renal''"
    by code_simp
  ultimately show ?thesis
    using dissectClinicalTopic_first_match
      [of "[''Board Review'', ''Renal'', ''Nephrotic Syndrome'', ''Cardiology'']"]
    by simp
qed

section \<open>Properties of the topic ranking\<close>

lemma mset_insert_cmp: "mset (insert_cmp cmp x xs) = add_mset x (mset xs)"
  by (induction xs) simp_all

lemma mset_js_sort: "mset (js_sort cmp xs) = mset xs"
  by (induction xs) (simp_all add: js_sort_def mset_insert_cmp)

lemma set_insert_cmp: "set (insert_cmp cmp x xs) = insert x (set xs)"
  by (induction xs) auto

lemma sorted_insert_cmp:
  assumes trans: "\<And>a b c. cmp a b \<le> 0 \<Longrightarrow> cmp b c \<le> 0 \<Longrightarrow> cmp a c \<le> 0"
    and total: "\<And>a b. \<not> cmp a b \<le> 0 \<Longrightarrow> cmp b a \<le> 0"
    and "sorted_wrt (\<lambda>a b. cmp a b \<le> 0) xs"
  shows "sorted_wrt (\<lambda>a b. cmp a b \<le> 0) (insert_cmp cmp x xs)"
  using assms(3)
proof (induction xs)
  case Nil
  then show ?case by simp
next
  case (Cons y ys)
  show ?case
  proof (cases "cmp x y \<le> 0")
    case True
    with Cons.prems show ?thesis by (auto intro: trans)
  next
    case False
    then have "cmp y x \<le> 0" by (rule total)
    with False Cons show ?thesis by (auto simp add: set_insert_cmp)
  qed
qed

lemma sorted_js_sort:
  assumes "\<And>a b c. cmp a b \<le> 0 \<Longrightarrow> cmp b c \<le> 0 \<Longrightarrow> cmp a c \<le> 0"
    and "\<And>a b. \<not> cmp a b \<le> 0 \<Longrightarrow> cmp b a \<le> 0"
  shows "sorted_wrt (\<lambda>a b. cmp a b \<le> 0) (js_sort cmp xs)"
proof (induction xs)
  case Nil
  show ?case by (simp add: js_sort_def)
next
  case (Cons x xs)
  have "js_sort cmp (x # xs) = insert_cmp cmp x (js_sort cmp xs)" by (simp add: js_sort_def)
  with sorted_insert_cmp [of cmp, OF assms Cons] show ?case by simp
qed

lemma weakness_cmp_le:
  "weakness_cmp a b \<le> 0 \<longleftrightarrow>
     (3 \<le> total a \<and> \<not> 3 \<le> total b) \<or>
     ((3 \<le> total a \<longleftrightarrow> 3 \<le> total b) \<and>
      (accuracy a < accuracy b \<or> accuracy a = accuracy b \<and> total b \<le> total a))"
  by (auto simp add: weakness_cmp_def js_or_def Let_def)

lemma weakness_cmp_trans:
  "weakness_cmp a b \<le> 0 \<Longrightarrow> weakness_cmp b c \<le> 0 \<Longrightarrow> weakness_cmp a c \<le> 0"
  unfolding weakness_cmp_le by auto

lemma weakness_cmp_total: "\<not> weakness_cmp a b \<le> 0 \<Longrightarrow> weakness_cmp b a \<le> 0"
  unfolding weakness_cmp_le by auto

text \<open>
  Claim C5.  Under the \<open>weakness\<close> sort no bucket is removed, every bucket with a total of
  at least \<open>3\<close> comes before every bucket with a smaller total, and inside each of the
  two groups the buckets are in ascending accuracy, ties in descending total.  In
  particular a bucket \<open>B\<close> with total \<open>5\<close> and accuracy \<open>40\<close> comes before a bucket
  \<open>A\<close> with total \<open>2\<close> and accuracy \<open>0\<close>.
\<close>

theorem weakness_sort_order:
  "mset (sort_subtopicData lc weakness data) = mset data \<and>
   (\<forall>i j. i < j \<and> j < length (sort_subtopicData lc weakness data) \<longrightarrow>
      (let a = sort_subtopicData lc weakness data ! i;
           b = sort_subtopicData lc weakness data ! j
       in (3 \<le> total b \<longrightarrow> 3 \<le> total a) \<and>
          ((3 \<le> total a \<longleftrightarrow> 3 \<le> total b) \<longrightarrow>
             accuracy a \<le> accuracy b \<and> (accuracy a = accuracy b \<longrightarrow> total b \<le> total a)))) \<and>
   (total A = 2 \<and> accuracy A = 0 \<and> total B = 5 \<and> accuracy B = 40 \<longrightarrow>
      sort_subtopicData lc weakness [A, B] = [B, A] \<and>
      sort_subtopicData lc weakness [B, A] = [B, A])"
proof -
  let ?out = "sort_subtopicData lc weakness data"
  have out: "?out = js_sort weakness_cmp data" by (simp add: sort_subtopicData_def)
  have perm: "mset ?out = mset data" unfolding out by (rule mset_js_sort)
  have "sorted_wrt (\<lambda>a b. weakness_cmp a b \<le> 0) ?out"
    unfolding out by (rule sorted_js_sort) (erule (1) weakness_cmp_trans, erule weakness_cmp_total)
  then have le: "weakness_cmp (?out ! i) (?out ! j) \<le> 0" if "i < j" "j < length ?out" for i j
    using that by (simp add: sorted_wrt_iff_nth_less)
  have order: "\<forall>i j. i < j \<and> j < length ?out \<longrightarrow>
      (let a = ?out ! i; b = ?out ! j
       in (3 \<le> total b \<longrightarrow> 3 \<le> total a) \<and>
          ((3 \<le> total a \<longleftrightarrow> 3 \<le> total b) \<longrightarrow>
             accuracy a \<le> accuracy b \<and> (accuracy a = accuracy b \<longrightarrow> total b \<le> total a)))"
  proof (intro allI impI)
    fix i j assume "i < j \<and> j < length ?out"
    then have "weakness_cmp (?out ! i) (?out ! j) \<le> 0" using le by blast
    then show "let a = ?out ! i; b = ?out ! j
       in (3 \<le> total b \<longrightarrow> 3 \<le> total a) \<and>
          ((3 \<le> total a \<longleftrightarrow> 3 \<le> total b) \<longrightarrow>
             accuracy a \<le> accuracy b \<and> (accuracy a = accuracy b \<longrightarrow> total b \<le> total a))"
      unfolding weakness_cmp_le Let_def by auto
  qed
  have example: "total A = 2 \<and> accuracy A = 0 \<and> total B = 5 \<and> accuracy B = 40 \<longrightarrow>
      sort_subtopicData lc weakness [A, B] = [B, A] \<and>
      sort_subtopicData lc weakness [B, A] = [B, A]"
    by (simp add: sort_subtopicData_def js_sort_def weakness_cmp_def js_or_def)
  from perm order example show ?thesis by blast
qed

theorem weakness_sort_order_witness:
  "sort_subtopicData (\<lambda>a b. 0) weakness
     [\<lparr>correct = 0, total = 2, name = ''A'', accuracy = 0, recentAccuracy = 0, urgency = 2\<rparr>,
      \<lparr>correct = 2, total = 5, name = ''B'', accuracy = 40, recentAccuracy = 40, urgency = 3\<rparr>,
      \<lparr>correct = 1, total = 4, name = ''C'', accuracy = 25, recentAccuracy = 25, urgency = 3\<rparr>,
      \<lparr>correct = 2, total = 8, name = ''D'', accuracy = 25, recentAccuracy = 25, urgency = 6\<rparr>]
   = [\<lparr>correct = 2, total = 8, name = ''D'', accuracy = 25, recentAccuracy = 25, urgency = 6\<rparr>,
      \<lparr>correct = 1, total = 4, name = ''C'', accuracy = 25, recentAccuracy = 25, urgency = 3\<rparr>,
      \<lparr>correct = 2, total = 5, name = ''B'', accuracy = 40, recentAccuracy = 40, urgency = 3\<rparr>,
      \<lparr>correct = 0, total = 2, name = ''A'', accuracy = 0, recentAccuracy = 0, urgency = 2\<rparr>]"
  using weakness_sort_order [of "\<lambda>a b. 0"
     "[\<lparr>correct = 0, total = 2, name = ''A'', accuracy = 0, recentAccuracy = 0, urgency = 2\<rparr>,
      \<lparr>correct = 2, total = 5, name = ''B'', accuracy = 40, recentAccuracy = 40, urgency = 3\<rparr>,
      \<lparr>correct = 1, total = 4, name = ''C'', accuracy = 25, recentAccuracy = 25, urgency = 3\<rparr>,
      \<lparr>correct = 2, total = 8, name = ''D'', accuracy = 25, recentAccuracy = 25, urgency = 6\<rparr>]"
     "\<lparr>correct = 0, total = 2, name = ''A'', accuracy = 0, recentAccuracy = 0, urgency = 2\<rparr>"
     "\<lparr>correct = 2, total = 5, name = ''B'', accuracy = 40, recentAccuracy = 40, urgency = 3\<rparr>"]
  by (simp add: sort_subtopicData_def js_sort_def weakness_cmp_def js_or_def)

section \<open>Properties of the topic statistics\<close>

lemma example_keys: "keysToTrack (example_question i) = [''Aortic Dissection'']"
proof -
  have "dissectClinicalTopic [''Step 2'', ''Aortic Dissection''] = Some ''Aortic Dissection''"
    by code_simp
  then show ?thesis by (simp add: keysToTrack_def example_question_def set_add_def)
qed

lemma track_detail_example:
  assumes "i \<in> set [''q1'', ''q2'', ''q3'', ''q4'', ''q5'', ''q6'']"
  shows "track_detail example_library stats \<lparr>questionId = i, isCorrect = ok\<rparr> =
           track_key ok stats ''Aortic Dissection''"
proof -
  have "example_library i = Some (example_question i)"
    using assms by (auto simp add: example_library_def)
  then show ?thesis by (simp add: track_detail_def js_get_def example_keys split: option.splits)
qed

lemma tagStats_example:
  "(case tagStats example_library [example_session] of
      Some stats \<Rightarrow> stats ''Aortic Dissection'' | None \<Rightarrow> None)
     = Some \<lparr>correct = 5, total = 6, history = [True, True, True, True, True, False]\<rparr>"
  by (simp add: tagStats_def example_session_def track_detail_example track_key_def js_get_def
      proto_members_def Let_def)

lemma percent_5_5: "percent 5 5 = 100"
  by (simp add: percent_def fl_1 fl_numeral js_round_def)

lemma percent_4_5: "percent 4 5 = 80"
proof -
  have a: "fl (4 / 5) = 7205759403792794 / 2 ^ 53"
    by (subst fl_eval_up [where k = 53]) (simp_all add: round_even_def)
  have b: "fl (7205759403792794 / 2 ^ 53 * 100) = 80"
    by (subst fl_eval_up [where k = 46]) (simp_all add: round_even_def)
  have c: "fl (fl (4 / 5) * 100) = 80" unfolding a by (rule b)
  have "percent 4 5 = js_round (fl (fl (4 / 5) * 100))" by (simp add: percent_def)
  then show ?thesis unfolding c by (simp add: js_round_def)
qed

text \<open>
  Claim C6 does not hold of the source.  One session answers six questions of one topic,
  the first five correctly and the last one not.  \<open>tagStats\<close> appends every outcome at
  the end of the list of the bucket and never cuts the list, and \<open>subtopicData\<close> takes
  the first five entries: the recent accuracy is \<open>100\<close>.  The buffer of the claim, each
  outcome pushed to its front and five kept, holds the last five answers, the newest
  first, and its percentage is \<open>80\<close>.
\<close>

theorem recent_accuracy_first_five:
  "(case tagStats example_library [example_session] of
      Some stats \<Rightarrow> stats ''Aortic Dissection'' | None \<Rightarrow> None)
     = Some \<lparr>correct = 5, total = 6, history = [True, True, True, True, True, False]\<rparr> \<and>
   recentAccuracy (subtopic_entry ''Aortic Dissection''
       \<lparr>correct = 5, total = 6, history = [True, True, True, True, True, False]\<rparr>) = 100 \<and>
   foldl push_front_capped [] [True, True, True, True, True, False]
     = [False, True, True, True, True] \<and>
   percent_correct [False, True, True, True, True] = 80"
proof -
  have five: "length (filter (\<lambda>b. b) (take 5 [True, True, True, True, True, False])) = 5"
    and five': "length (take 5 [True, True, True, True, True, False]) = 5" by simp_all
  have r: "recentAccuracy (subtopic_entry ''Aortic Dissection''
       \<lparr>correct = 5, total = 6, history = [True, True, True, True, True, False]\<rparr>) = percent 5 5"
    unfolding subtopic_entry_def Let_def by (simp only: TagStat.simps Subtopic.simps five five') simp
  have four: "length (filter (\<lambda>b. b) [False, True, True, True, True]) = 4"
    and four': "length [False, True, True, True, True] = 5" by simp_all
  have p: "percent_correct [False, True, True, True, True] = percent 4 5"
    unfolding percent_correct_def by (simp only: four four')
  have b: "foldl push_front_capped [] [True, True, True, True, True, False]
     = [False, True, True, True, True]"
    by (simp add: push_front_capped_def)
  show ?thesis using tagStats_example r p b by (simp only: percent_5_5 percent_4_5)
qed

section \<open>Properties of the due cards\<close>

lemma find_mastery_None:
  "find_mastery mcs cid = None \<longleftrightarrow> (\<forall>(p, cs) \<in> set mcs. \<forall>c \<in> set cs. Some (id_m c) \<noteq> cid)"
proof (induction mcs cid rule: find_mastery.induct)
  case (1 cid)
  show ?case by simp
next
  case (2 parentId cards rest cid)
  show ?case
  proof (cases "find (\<lambda>c. Some (id_m c) = cid) cards")
    case None
    then have "\<forall>c \<in> set cards. Some (id_m c) \<noteq> cid" by (simp add: find_None_iff)
    with None 2 show ?thesis by simp
  next
    case (Some found)
    then have "found \<in> set cards \<and> Some (id_m found) = cid" by (auto simp add: find_Some_iff)
    with Some show ?thesis by auto
  qed
qed

lemma find_mastery_Some:
  "find_mastery mcs cid = Some c \<Longrightarrow>
     Some (id_m c) = cid \<and> (\<exists>p cs. (p, cs) \<in> set mcs \<and> c \<in> set cs)"
proof (induction mcs cid rule: find_mastery.induct)
  case (1 cid)
  then show ?case by simp
next
  case (2 parentId cards rest cid)
  show ?case
  proof (cases "find (\<lambda>c. Some (id_m c) = cid) cards")
    case None
    with 2 show ?thesis by auto
  next
    case (Some found)
    with "2.prems" have "found = c" by simp
    with Some have "Some (id_m c) = cid \<and> c \<in> set cards"
      by (auto simp add: find_Some_iff)
    then show ?thesis by auto
  qed
qed

lemma dueSRSItems_concat:
  assumes "\<forall>s \<in> set states. prop_key (cardId s) \<notin> set proto_members"
  shows "dueSRSItems now states lib mcs =
     concat (map (\<lambda>s. if jle (nextReview s) (Fin now)
                       then (case lib (prop_key (cardId s)) of
                               Some q \<Rightarrow> [vignette q]
                             | None \<Rightarrow> (case find_mastery mcs (cardId s) of
                                          Some c \<Rightarrow> [mastery c]
                                        | None \<Rightarrow> []))
                       else []) states)"
  using assms
  by (induction states)
    (simp_all add: dueSRSItems_def resolve_item_def js_get_def List.map_filter_simps
      split: option.splits)

text \<open>
  Claim C7 as it is worded does not hold.  The source never reads the bookmarks: it looks
  the id of a due card up in the question library, which holds every question that was
  ever added to it, bookmarked or not.  A due card whose question is in the library and
  not among the bookmarks is returned by the source and left out by the worded lookup.
\<close>

theorem dueSRSItems_library_counterexample:
  "dueSRSItems 100
     [\<lparr>cardId = Some ''q1'', nextReview = Fin 50, interval = Fin 1, ease = lit (23 / 10),
       repetitions = Fin 1\<rparr>]
     [''q1'' \<mapsto> \<lparr>id_q = ''q1'', tags = None, clinicalConcepts = None\<rparr>] []
   = [vignette \<lparr>id_q = ''q1'', tags = None, clinicalConcepts = None\<rparr>] \<and>
   due_by_bookmarks 100
     [\<lparr>cardId = Some ''q1'', nextReview = Fin 50, interval = Fin 1, ease = lit (23 / 10),
       repetitions = Fin 1\<rparr>]
     [] []
   = []"
  by (simp add: dueSRSItems_def resolve_item_def js_get_def prop_key_def due_by_bookmarks_def
      resolve_bookmarked_def List.map_filter_simps)

text \<open>
  Claim C7, amended.  \<open>dueSRSItems\<close> never fails.  A state contributes to the result only
  when its \<open>nextReview\<close> is at or before \<open>now\<close>, and then exactly one item: the question
  that the question library holds under the card id, or else the first generated mastery
  card with that id, found by a search through the mastery collections.  A due state
  whose id is in neither source contributes nothing.  This is stated for card ids that do
  not name a member of \<open>Object.prototype\<close>.
\<close>

theorem dueSRSItems_resolution:
  assumes "\<forall>s \<in> set states. prop_key (cardId s) \<notin> set proto_members"
  shows "dueSRSItems now states lib mcs =
     concat (map (\<lambda>s. if jle (nextReview s) (Fin now)
                       then (case lib (prop_key (cardId s)) of
                               Some q \<Rightarrow> [vignette q]
                             | None \<Rightarrow> (case find_mastery mcs (cardId s) of
                                          Some c \<Rightarrow> [mastery c]
                                        | None \<Rightarrow> []))
                       else []) states) \<and>
   (find_mastery mcs cid = None \<longleftrightarrow>
      (\<forall>(p, cs) \<in> set mcs. \<forall>c \<in> set cs. Some (id_m c) \<noteq> cid)) \<and>
   (\<forall>c. find_mastery mcs cid = Some c \<longrightarrow>
      Some (id_m c) = cid \<and> (\<exists>p cs. (p, cs) \<in> set mcs \<and> c \<in> set cs)) \<and>
   (\<forall>s \<in> set states.
      jle (nextReview s) (Fin now) \<and> lib (prop_key (cardId s)) = None \<and>
      (\<forall>(p, cs) \<in> set mcs. \<forall>c \<in> set cs. Some (id_m c) \<noteq> cardId s) \<longrightarrow>
      dueSRSItems now [s] lib mcs = [])"
proof -
  have orphan: "\<forall>s \<in> set states.
      jle (nextReview s) (Fin now) \<and> lib (prop_key (cardId s)) = None \<and>
      (\<forall>(p, cs) \<in> set mcs. \<forall>c \<in> set cs. Some (id_m c) \<noteq> cardId s) \<longrightarrow>
      dueSRSItems now [s] lib mcs = []"
  proof (intro ballI impI)
    fix s assume s: "s \<in> set states"
      and h: "jle (nextReview s) (Fin now) \<and> lib (prop_key (cardId s)) = None \<and>
      (\<forall>(p, cs) \<in> set mcs. \<forall>c \<in> set cs. Some (id_m c) \<noteq> cardId s)"
    from s assms have "\<forall>s' \<in> set [s]. prop_key (cardId s') \<notin> set proto_members" by simp
    from dueSRSItems_concat [OF this, of now lib mcs] h find_mastery_None [of mcs "cardId s"]
    show "dueSRSItems now [s] lib mcs = []" by simp
  qed
  from dueSRSItems_concat [OF assms, of now lib mcs] find_mastery_None [of mcs cid]
    find_mastery_Some [of mcs cid] orphan
  show ?thesis by blast
qed

theorem dueSRSItems_resolution_witness:
  "dueSRSItems 100
     [\<lparr>cardId = Some ''q1'', nextReview = Fin 50, interval = Fin 1, ease = lit (23 / 10), repetitions = Fin 1\<rparr>,
      \<lparr>cardId = Some ''m1'', nextReview = Fin 100, interval = Fin 0, ease = lit (21 / 10), repetitions = Fin 0\<rparr>,
      \<lparr>cardId = Some ''gone'', nextReview = Fin 10, interval = Fin 0, ease = lit (21 / 10), repetitions = Fin 0\<rparr>,
      \<lparr>cardId = Some ''q2'', nextReview = Fin 200, interval = Fin 6, ease = lit (23 / 10), repetitions = Fin 2\<rparr>]
     [''q1'' \<mapsto> \<lparr>id_q = ''q1'', tags = None, clinicalConcepts = None\<rparr>,
      ''q2'' \<mapsto> \<lparr>id_q = ''q2'', tags = None, clinicalConcepts = None\<rparr>]
     [(''q9'', [\<lparr>id_m = ''m0'', content = ''diagnosis''\<rparr>, \<lparr>id_m = ''m1'', content = ''management''\<rparr>])]
   = [vignette \<lparr>id_q = ''q1'', tags = None, clinicalConcepts = None\<rparr>,
      mastery \<lparr>id_m = ''m1'', content = ''management''\<rparr>]"
proof -
  let ?states = "[\<lparr>cardId = Some ''q1'', nextReview = Fin 50, interval = Fin 1, ease = lit (23 / 10), repetitions = Fin 1\<rparr>,
      \<lparr>cardId = Some ''m1'', nextReview = Fin 100, interval = Fin 0, ease = lit (21 / 10), repetitions = Fin 0\<rparr>,
      \<lparr>cardId = Some ''gone'', nextReview = Fin 10, interval = Fin 0, ease = lit (21 / 10), repetitions = Fin 0\<rparr>,
      \<lparr>cardId = Some ''q2'', nextReview = Fin 200, interval = Fin 6, ease = lit (23 / 10), repetitions = Fin 2\<rparr>]"
  have h: "\<forall>s \<in> set ?states. prop_key (cardId s) \<notin> set proto_members"
    by (simp add: prop_key_def proto_members_def)
  show ?thesis
    using dueSRSItems_resolution [OF h, of 100
     "[''q1'' \<mapsto> \<lparr>id_q = ''q1'', tags = None, clinicalConcepts = None\<rparr>,
      ''q2'' \<mapsto> \<lparr>id_q = ''q2'', tags = None, clinicalConcepts = None\<rparr>]"
     "[(''q9'', [\<lparr>id_m = ''m0'', content = ''diagnosis''\<rparr>, \<lparr>id_m = ''m1'', content = ''management''\<rparr>])]"
     "Some ''gone''"]
    by (simp add: prop_key_def)
qed

text \<open>
  For a due card whose id names a member of \<open>Object.prototype\<close> the lookup in the
  library finds the inherited member, and the card is returned with it even when neither
  the library nor the mastery collections hold the id.
\<close>

lemma dueSRSItems_member:
  "dueSRSItems 100
     [\<lparr>cardId = Some ''constructor'', nextReview = Fin 50, interval = Fin 1, ease = lit (23 / 10),
       repetitions = Fin 1\<rparr>] Map.empty []
   = [vignette_member ''constructor'']"
  by (simp add: dueSRSItems_def resolve_item_def js_get_def prop_key_def proto_members_def
      List.map_filter_simps)

section \<open>Properties of the lifetime statistics\<close>

lemma hd_insert_cmp:
  "hd (insert_cmp cmp x ys) = (case ys of [] \<Rightarrow> x | y # _ \<Rightarrow> if cmp x y \<le> 0 then x else y)"
  by (cases ys) simp_all

lemma js_sort_Cons: "js_sort cmp (x # xs) = insert_cmp cmp x (js_sort cmp xs)"
  by (simp add: js_sort_def)

lemma set_js_sort: "set (js_sort cmp xs) = set xs"
  using mset_js_sort [of cmp xs] by (rule mset_eq_setD)

lemma fl_sign:
  assumes "1 \<le> \<bar>x\<bar>"
  shows "(0 < x \<longrightarrow> 0 < fl x) \<and> (x < 0 \<longrightarrow> fl x < 0)"
proof -
  have "pow2 (- 1022) \<le> pow2 0" by (rule pow2_mono) simp
  also have "pow2 0 = 1" by (simp add: pow2_def)
  finally have "pow2 (- 1022) \<le> \<bar>x\<bar>" using assms by simp
  from fl_error [OF this] have e: "\<bar>fl x - x\<bar> \<le> \<bar>x\<bar> / 2 ^ 53" .
  have "\<bar>x\<bar> / 2 ^ 53 < \<bar>x\<bar>" using assms by (simp add: field_simps)
  with e show ?thesis by (auto simp add: abs_if split: if_splits)
qed

lemma sort_value_difference:
  "sort_value (jsub (Fin (of_int p)) (Fin (of_int q))) \<le> 0 \<longleftrightarrow> p \<le> q"
proof -
  define x :: real where "x = of_int (p - q)"
  have j: "jsub (Fin (of_int p)) (Fin (of_int q)) = fl_round x"
    by (simp add: jsub_def x_def)
  have m: "0 < max_double" using max_double_ge by (smt (verit) zero_less_power)
  consider "p = q" | "p < q" | "q < p" by linarith
  then show ?thesis
  proof cases
    case 1
    then have "x = 0" by (simp add: x_def)
    then show ?thesis using 1 m unfolding j by (simp add: fl_round_def fl_0 sort_value_def)
  next
    case 2
    then have "x < 0" "1 \<le> \<bar>x\<bar>" by (simp_all add: x_def)
    with fl_sign [of x] have "fl x < 0" by simp
    then show ?thesis using 2 m unfolding j by (simp add: fl_round_def sort_value_def)
  next
    case 3
    then have "0 < x" "1 \<le> \<bar>x\<bar>" by (simp_all add: x_def)
    with fl_sign [of x] have "0 < fl x" by simp
    then show ?thesis using 3 m unfolding j by (simp add: fl_round_def sort_value_def)
  qed
qed

lemma hd_js_sort_earliest:
  assumes "h \<noteq> []" and "\<forall>s \<in> set h. \<exists>n. timestamp s = Fin (of_int n)"
  shows "hd (js_sort (\<lambda>a b. sort_value (jsub (timestamp a) (timestamp b))) h) \<in> set h \<and>
         (\<forall>s \<in> set h.
            jle (timestamp (hd (js_sort (\<lambda>a b. sort_value (jsub (timestamp a) (timestamp b))) h)))
                (timestamp s))"
  using assms
proof (induction h)
  case Nil
  then show ?case by simp
next
  case (Cons x xs)
  let ?cmp = "\<lambda>a b. sort_value (jsub (timestamp a) (timestamp b))"
  obtain nx where nx: "timestamp x = Fin (of_int nx)" using Cons.prems(2) by auto
  show ?case
  proof (cases "xs = []")
    case True
    then show ?thesis using nx by (simp add: js_sort_def)
  next
    case False
    let ?y = "hd (js_sort ?cmp xs)"
    from Cons.IH [OF False] Cons.prems(2)
    have y: "?y \<in> set xs" and least: "\<forall>s \<in> set xs. jle (timestamp ?y) (timestamp s)" by simp_all
    have "?y \<in> set (x # xs)" using y by simp
    with Cons.prems(2) have "\<exists>n. timestamp ?y = Fin (of_int n)" by blast
    then obtain ny where ny: "timestamp ?y = Fin (of_int ny)" by blast
    have ne: "js_sort ?cmp xs \<noteq> []" using set_js_sort [of ?cmp xs] False by auto
    then obtain z zs where z: "js_sort ?cmp xs = z # zs" by (cases "js_sort ?cmp xs") auto
    then have zy: "z = ?y" by simp
    have hd: "hd (js_sort ?cmp (x # xs)) = (if ?cmp x ?y \<le> 0 then x else ?y)"
      unfolding js_sort_Cons hd_insert_cmp z using zy by simp
    have c: "?cmp x ?y \<le> 0 \<longleftrightarrow> nx \<le> ny" unfolding nx ny by (rule sort_value_difference)
    show ?thesis
    proof (cases "nx \<le> ny")
      case True
      have "jle (timestamp x) (timestamp s)" if "s \<in> set xs" for s
      proof -
        have "s \<in> set (x # xs)" using that by simp
        with Cons.prems(2) have "\<exists>n. timestamp s = Fin (of_int n)" by blast
        then obtain ns where ns: "timestamp s = Fin (of_int ns)" by blast
        from least that have "jle (timestamp ?y) (timestamp s)" by simp
        then have "ny \<le> ns" unfolding ny ns by simp
        with True show ?thesis unfolding nx ns by simp
      qed
      then show ?thesis using True c hd nx by auto
    next
      case False
      then have "jle (timestamp ?y) (timestamp x)" unfolding nx ny by simp
      then show ?thesis using False c hd y least by auto
    qed
  qed
qed

lemma div_7_10: "jdiv (Fin 7) (Fin 10) = Fin (6305039478318694 / 2 ^ 53)"
  unfolding jdiv.simps
  by (simp, subst fl_round_Fin; subst fl_eval_up [where k = 53]) (simp_all add: round_even_def)

lemma mul_07_100: "jmul (Fin (6305039478318694 / 2 ^ 53)) (Fin 100) = Fin 70"
  unfolding jmul.simps
  by (subst fl_round_Fin; subst fl_eval_up [where k = 46]) (simp_all add: round_even_def)

lemma div_hours: "jdiv (Fin 600000) (Fin 3600000) = Fin (6004799503160661 / 2 ^ 55)"
proof -
  have "fl_round (1 / 6) = Fin (6004799503160661 / 2 ^ 55)"
    by (subst fl_round_Fin; subst fl_eval_up [where k = 55]) (simp_all add: round_even_def)
  then show ?thesis by simp
qed

lemma div_hours_540000: "jdiv (Fin 540000) (Fin 3600000) = Fin (5404319552844595 / 2 ^ 55)"
proof -
  have "fl_round (3 / 20) = Fin (5404319552844595 / 2 ^ 55)"
    by (subst fl_round_Fin; subst fl_eval_up [where k = 55]) (simp_all add: round_even_def)
  then show ?thesis by simp
qed

lemma accuracy_7_10: "jround (jmul (jdiv (Fin 7) (Fin 10)) (Fin 100)) = Fin 70"
  unfolding div_7_10 mul_07_100 by simp

lemma hours_600000: "toFixed1 (jdiv (Fin 600000) (Fin 3600000)) = lit (2 / 10)"
  unfolding div_hours lit_def by simp

lemma hours_540000: "toFixed1 (jdiv (Fin 540000) (Fin 3600000)) = lit (1 / 10)"
  unfolding div_hours_540000 lit_def by simp

text \<open>
  Claim C8.  On an empty history \<open>updateAnalytics\<close> returns the default statistics, all
  counts zero and the first session date set to the current time, and does not fail.  On
  the history of one session with \<open>10\<close> questions, \<open>7\<close> correct answers and \<open>600000\<close>
  milliseconds it returns an average accuracy of \<open>70\<close>, \<open>0.2\<close> hours and \<open>10\<close>
  questions.  On every history that is not empty the hours are the sum of the
  milliseconds divided by \<open>3600000\<close>, in doubles, and rounded to one decimal by
  \<open>toFixed\<close>; and when the timestamps are whole numbers of milliseconds the first session
  date is the earliest timestamp of the sessions.
\<close>

theorem updateAnalytics_stats:
  "fst (updateAnalytics now (Some []) store) =
     \<lparr>totalQuestions_lt = Fin 0, totalCorrect = Fin 0, totalHours = Fin 0, avgAccuracy = Fin 0,
      firstSessionDate = Fin now\<rparr> \<and>
   (totalQuestions s = Fin 10 \<and> correctAnswers s = Fin 7 \<and> timeTakenMs s = Fin 600000 \<longrightarrow>
      fst (updateAnalytics now (Some [s]) store) =
        \<lparr>totalQuestions_lt = Fin 10, totalCorrect = Fin 7, totalHours = lit (2 / 10),
         avgAccuracy = Fin 70, firstSessionDate = timestamp s\<rparr>) \<and>
   (h \<noteq> [] \<longrightarrow>
      totalHours (fst (updateAnalytics now (Some h) store)) =
        toFixed1 (jdiv (foldl (\<lambda>acc x. jadd acc (timeTakenMs x)) (Fin 0) h) (Fin 3600000))) \<and>
   (h \<noteq> [] \<and> (\<forall>x \<in> set h. \<exists>n. timestamp x = Fin (of_int n)) \<longrightarrow>
      firstSessionDate (fst (updateAnalytics now (Some h) store)) \<in> timestamp ` set h \<and>
      (\<forall>x \<in> set h. jle (firstSessionDate (fst (updateAnalytics now (Some h) store))) (timestamp x)))"
proof -
  have empty: "fst (updateAnalytics now (Some []) store) =
     \<lparr>totalQuestions_lt = Fin 0, totalCorrect = Fin 0, totalHours = Fin 0, avgAccuracy = Fin 0,
      firstSessionDate = Fin now\<rparr>"
    by (simp add: updateAnalytics_def Let_def)
  have single: "totalQuestions s = Fin 10 \<and> correctAnswers s = Fin 7 \<and> timeTakenMs s = Fin 600000 \<longrightarrow>
      fst (updateAnalytics now (Some [s]) store) =
        \<lparr>totalQuestions_lt = Fin 10, totalCorrect = Fin 7, totalHours = lit (2 / 10),
         avgAccuracy = Fin 70, firstSessionDate = timestamp s\<rparr>"
  proof
    assume a: "totalQuestions s = Fin 10 \<and> correctAnswers s = Fin 7 \<and> timeTakenMs s = Fin 600000"
    have q: "jadd (Fin 0) (Fin 10) = Fin 10" "jadd (Fin 0) (Fin 7) = Fin 7"
      "jadd (Fin 0) (Fin 600000) = Fin 600000" by (simp_all add: fl_round_numeral)
    have "fst (updateAnalytics now (Some [s]) store) =
        \<lparr>totalQuestions_lt = Fin 10, totalCorrect = Fin 7,
         totalHours = toFixed1 (jdiv (Fin 600000) (Fin 3600000)),
         avgAccuracy = jround (jmul (jdiv (Fin 7) (Fin 10)) (Fin 100)),
         firstSessionDate = timestamp s\<rparr>"
      unfolding updateAnalytics_def Let_def using a
      by (simp only: option.case list.size length_Cons foldl.simps q js_sort_def foldr.simps
          insert_cmp.simps o_apply id_apply list.sel fst_conv) simp
    then show "fst (updateAnalytics now (Some [s]) store) =
        \<lparr>totalQuestions_lt = Fin 10, totalCorrect = Fin 7, totalHours = lit (2 / 10),
         avgAccuracy = Fin 70, firstSessionDate = timestamp s\<rparr>"
      unfolding hours_600000 accuracy_7_10 .
  qed
  have hours: "h \<noteq> [] \<longrightarrow>
      totalHours (fst (updateAnalytics now (Some h) store)) =
        toFixed1 (jdiv (foldl (\<lambda>acc x. jadd acc (timeTakenMs x)) (Fin 0) h) (Fin 3600000))"
    by (simp add: updateAnalytics_def Let_def)
  have first: "h \<noteq> [] \<and> (\<forall>x \<in> set h. \<exists>n. timestamp x = Fin (of_int n)) \<longrightarrow>
      firstSessionDate (fst (updateAnalytics now (Some h) store)) \<in> timestamp ` set h \<and>
      (\<forall>x \<in> set h. jle (firstSessionDate (fst (updateAnalytics now (Some h) store))) (timestamp x))"
  proof
    assume a: "h \<noteq> [] \<and> (\<forall>x \<in> set h. \<exists>n. timestamp x = Fin (of_int n))"
    then have f: "firstSessionDate (fst (updateAnalytics now (Some h) store)) =
        timestamp (hd (js_sort (\<lambda>a b. sort_value (jsub (timestamp a) (timestamp b))) h))"
      by (simp add: updateAnalytics_def Let_def)
    from a hd_js_sort_earliest [of h] show
      "firstSessionDate (fst (updateAnalytics now (Some h) store)) \<in> timestamp ` set h \<and>
      (\<forall>x \<in> set h. jle (firstSessionDate (fst (updateAnalytics now (Some h) store))) (timestamp x))"
      unfolding f by blast
  qed
  from empty single hours first show ?thesis by blast
qed

theorem updateAnalytics_stats_witness:
  "fst (updateAnalytics 5000 (Some
       [\<lparr>timestamp = Fin 3000, totalQuestions = Fin 10, correctAnswers = Fin 7,
         timeTakenMs = Fin 600000, details = None\<rparr>])
       \<lparr>history_kv = None, bookmarks_kv = None, masteryCards_kv = None, srsStates_kv = None,
        questionLibrary_kv = None, studyPlan_kv = None, lifetimeStats_kv = None\<rparr>)
   = \<lparr>totalQuestions_lt = Fin 10, totalCorrect = Fin 7, totalHours = lit (2 / 10),
      avgAccuracy = Fin 70, firstSessionDate = Fin 3000\<rparr> \<and>
   totalHours (fst (updateAnalytics 5000 (Some
       [\<lparr>timestamp = Fin 3000, totalQuestions = Fin 5, correctAnswers = Fin 3,
         timeTakenMs = Fin 540000, details = None\<rparr>,
        \<lparr>timestamp = Fin 2000, totalQuestions = Fin 5, correctAnswers = Fin 1,
         timeTakenMs = Fin 0, details = None\<rparr>])
       \<lparr>history_kv = None, bookmarks_kv = None, masteryCards_kv = None, srsStates_kv = None,
        questionLibrary_kv = None, studyPlan_kv = None, lifetimeStats_kv = None\<rparr>))
   = lit (1 / 10) \<and>
   firstSessionDate (fst (updateAnalytics 5000 (Some
       [\<lparr>timestamp = Fin 3000, totalQuestions = Fin 5, correctAnswers = Fin 3,
         timeTakenMs = Fin 540000, details = None\<rparr>,
        \<lparr>timestamp = Fin 2000, totalQuestions = Fin 5, correctAnswers = Fin 1,
         timeTakenMs = Fin 0, details = None\<rparr>])
       \<lparr>history_kv = None, bookmarks_kv = None, masteryCards_kv = None, srsStates_kv = None,
        questionLibrary_kv = None, studyPlan_kv = None, lifetimeStats_kv = None\<rparr>))
   = Fin 2000"
proof -
  let ?store = "\<lparr>history_kv = None, bookmarks_kv = None, masteryCards_kv = None,
      srsStates_kv = None, questionLibrary_kv = None, studyPlan_kv = None, lifetimeStats_kv = None\<rparr>"
  let ?s = "\<lparr>timestamp = Fin 3000, totalQuestions = Fin 10, correctAnswers = Fin 7,
         timeTakenMs = Fin 600000, details = None\<rparr>"
  let ?a = "\<lparr>timestamp = Fin 3000, totalQuestions = Fin 5, correctAnswers = Fin 3,
         timeTakenMs = Fin 540000, details = None\<rparr>"
  let ?b = "\<lparr>timestamp = Fin 2000, totalQuestions = Fin 5, correctAnswers = Fin 1,
         timeTakenMs = Fin 0, details = None\<rparr>"
  note main = updateAnalytics_stats [where now = 5000 and store = ?store and s = ?s and h = "[?a, ?b]"]
  have one: "fst (updateAnalytics 5000 (Some [?s]) ?store)
     = \<lparr>totalQuestions_lt = Fin 10, totalCorrect = Fin 7, totalHours = lit (2 / 10),
        avgAccuracy = Fin 70, firstSessionDate = Fin 3000\<rparr>"
    using main by simp
  have "foldl (\<lambda>acc x. jadd acc (timeTakenMs x)) (Fin 0) [?a, ?b] = Fin 540000"
    by (simp add: fl_round_numeral)
  then have two: "totalHours (fst (updateAnalytics 5000 (Some [?a, ?b]) ?store)) = lit (1 / 10)"
    using main hours_540000 by simp
  have "Fin 3000 = Fin (of_int 3000)" "Fin 2000 = Fin (of_int 2000)" by simp_all
  then have ints: "\<forall>x \<in> set [?a, ?b]. \<exists>n. timestamp x = Fin (of_int n)" by (simp del: of_int_numeral)
  with main have "firstSessionDate (fst (updateAnalytics 5000 (Some [?a, ?b]) ?store))
        \<in> timestamp ` set [?a, ?b] \<and>
      (\<forall>x \<in> set [?a, ?b].
         jle (firstSessionDate (fst (updateAnalytics 5000 (Some [?a, ?b]) ?store))) (timestamp x))"
    by blast
  then have three: "firstSessionDate (fst (updateAnalytics 5000 (Some [?a, ?b]) ?store)) = Fin 2000"
    by auto
  from one two three show ?thesis by blast
qed

section \<open>Properties of the import\<close>

text \<open>
  Claim C9 does not hold of the source.  The validation rejects a text that does not
  parse, and \<open>null\<close>, a boolean, a number and a string, before the store is touched.  It
  does not reject a JSON array, which is truthy and whose \<open>typeof\<close> is \<open>object\<close>: for
  an array the import goes on to \<open>resetData\<close>, which clears the store, and writes the
  empty defaults.
\<close>

theorem array_passes_validation:
  "\<not> invalid_backup (Some json_array) \<and> \<not> invalid_backup (Some json_object) \<and>
   invalid_backup None \<and> invalid_backup (Some json_null) \<and>
   invalid_backup (Some (json_string ''backup'')) \<and> invalid_backup (Some (json_number 5)) \<and>
   invalid_backup (Some (json_bool True))"
  by (simp add: invalid_backup_def)

end
